theory Spec2Isabelle
  imports Main "HOL-Library.Sublist"
begin

section \<open>Strings and numbers of the host language\<close>

text \<open>
  A JavaScript string is a sequence of code units; every test the handlers make on a
  string compares code units with ASCII literals, so a string is modelled as a
  \<^typ>\<open>string\<close>, one \<^typ>\<open>char\<close> per code unit.
\<close>

definition startsWith :: "string \<Rightarrow> string \<Rightarrow> bool" where
  "startsWith s p = prefix p s"

definition endsWith :: "string \<Rightarrow> string \<Rightarrow> bool" where
  "endsWith s p = suffix p s"

definition str_includes :: "string \<Rightarrow> string \<Rightarrow> bool" where
  "str_includes s p = sublist p s"

text \<open>\<^verbatim>\<open>name.split('/').pop()\<close>: the text after the last \<^verbatim>\<open>/\<close> (the whole string when
  there is none, the empty string when the name ends in \<^verbatim>\<open>/\<close>).\<close>

definition split_pop :: "string \<Rightarrow> string" where
  "split_pop s = rev (takeWhile (\<lambda>c. c \<noteq> CHR ''/'') (rev s))"

text \<open>The class \<^verbatim>\<open>\d\<close>: the ten ASCII digits.\<close>

definition is_digit :: "char \<Rightarrow> bool" where
  "is_digit c = (c \<in> set ''0123456789'')"

text \<open>\<^verbatim>\<open>/^\d+$/.test(s)\<close>: a non-empty string of digits.\<close>

definition all_digits :: "string \<Rightarrow> bool" where
  "all_digits s = (s \<noteq> [] \<and> list_all is_digit s)"

text \<open>The mathematical integer that a string of decimal digits denotes.\<close>

definition digit_val :: "char \<Rightarrow> nat" where
  "digit_val c = of_char c - 48"

definition decimal_value :: "string \<Rightarrow> nat" where
  "decimal_value s = foldl (\<lambda>a c. 10 * a + digit_val c) 0 s"

text \<open>
  A JavaScript number is an IEEE double. The handlers only ever hold non-negative
  integers, the infinity and (for an argument with no digit) NaN.
\<close>

datatype jsnum = Num int | Infinity | NaN

fun bit_length :: "nat \<Rightarrow> nat" where
  "bit_length n = (if n = 0 then 0 else Suc (bit_length (n div 2)))"

text \<open>
  The Number value of a natural number: the nearest double, ties to the even
  significand; 53 significant bits, and everything that rounds to \<open>2 ^ 1024\<close> or more is
  the infinity.
\<close>

definition to_number :: "nat \<Rightarrow> jsnum" where
  "to_number n =
     (if n < 2 ^ 53 then Num (int n)
      else
        let e = bit_length n - 53;
            q = n div 2 ^ e;
            r = n mod 2 ^ e;
            half = 2 ^ (e - 1);
            q' = (if half < r \<or> (r = half \<and> odd q) then q + 1 else q);
            v = q' * 2 ^ e
        in if 2 ^ 1024 \<le> v then Infinity else Num (int v))"

text \<open>
  \<^verbatim>\<open>parseInt(s)\<close> with no radix, for the arguments the handlers pass: strings of ASCII
  digits (each call is guarded by \<^verbatim>\<open>\d+\<close>). It reads the longest prefix of digits as a
  decimal integer and returns its Number value, NaN when there is no digit. (The
  language lets an implementation approximate an integer of more than 20 significant
  digits; the exact value is taken here.)
\<close>

definition parseInt :: "string \<Rightarrow> jsnum" where
  "parseInt s =
     (let ds = takeWhile is_digit s
      in if ds = [] then NaN else to_number (decimal_value ds))"

section \<open>The regular expressions of the reconciliation handler\<close>

text \<open>
  \<^verbatim>\<open>name.match(/^sessions\/([^\/]+)\//)\<close>, returning group 1. After the literal prefix the
  group is greedy and must be followed by \<^verbatim>\<open>/\<close>, which the group cannot contain: the
  group is the longest run of non-slash code units, it must be non-empty and a slash
  must follow.
\<close>

definition session_match :: "string \<Rightarrow> string option" where
  "session_match name =
     (if startsWith name ''sessions/'' then
        let rest = drop 9 name;
            seg = takeWhile (\<lambda>c. c \<noteq> CHR ''/'') rest;
            after = dropWhile (\<lambda>c. c \<noteq> CHR ''/'') rest
        in if seg \<noteq> [] \<and> after \<noteq> [] then Some seg else None
      else None)"

text \<open>
  \<^verbatim>\<open>/foundation-([^-]+)-(\d+)\.jpg/\<close> tried at the start of \<open>s\<close>: group 1 is the longest
  run of non-hyphens (a hyphen must follow it), group 2 the longest run of digits
  (\<^verbatim>\<open>.jpg\<close> must follow it).
\<close>

definition foundation_match_here :: "string \<Rightarrow> (string \<times> string) option" where
  "foundation_match_here s =
     (if startsWith s ''foundation-'' then
        let r1 = drop 11 s;
            sku = takeWhile (\<lambda>c. c \<noteq> CHR ''-'') r1;
            r2 = dropWhile (\<lambda>c. c \<noteq> CHR ''-'') r1
        in if sku = [] \<or> r2 = [] then None
           else
             let r3 = tl r2;
                 ds = takeWhile is_digit r3;
                 r4 = dropWhile is_digit r3
             in if ds \<noteq> [] \<and> startsWith r4 ''.jpg'' then Some (sku, ds) else None
      else None)"

text \<open>The expression is not anchored: \<^verbatim>\<open>match\<close> tries every start position from the
  left and returns the groups of the first success.\<close>

fun foundation_match :: "string \<Rightarrow> (string \<times> string) option" where
  "foundation_match s =
     (case foundation_match_here s of
        Some m \<Rightarrow> Some m
      | None \<Rightarrow> (case s of [] \<Rightarrow> None | c # cs \<Rightarrow> foundation_match cs))"

section \<open>The world the handlers run in\<close>

text \<open>An object of the storage bucket: its name, its bytes as the base64 text they were
  decoded from, its content type, and whether it is publicly readable.\<close>

record stored_object =
  obj_name :: string
  obj_data :: string
  obj_contentType :: string
  obj_public :: bool

record tryon =
  sku :: string
  timestamp :: jsnum
  imageUrl :: string

text \<open>A document of the collection \<^verbatim>\<open>sessions\<close>, as the sweep builds it.\<close>

record session_doc =
  createdAt :: jsnum
  originalImageUrl :: "string option"
  originalMimeType :: string
  derenderedImageUrl :: "string option"
  derenderedMimeType :: string
  model :: string
  derenderPrompt :: string
  foundationTryons :: "tryon list"
  doc_status :: string
  completedAt :: "jsnum option"
  syncedFromStorage :: bool
  syncedAt :: jsnum

text \<open>A document of the collection \<^verbatim>\<open>generations\<close>.\<close>

record generation_doc =
  gen_timestamp :: jsnum
  gen_originalImageUrl :: string
  gen_originalMimeType :: string
  gen_processedImageUrl :: string
  gen_processedMimeType :: string
  gen_model :: string
  gen_prompt :: string

text \<open>The reply of the generative model, as the handler reads it: the parts of the first
  candidate (\<open>None\<close> when \<^verbatim>\<open>candidates?.[0]?.content?.parts\<close> is undefined) and what the
  accessor \<^verbatim>\<open>text()\<close>, declared \<^verbatim>\<open>() => string\<close>, does: throw (\<open>Inl\<close>) or return a
  string.\<close>

record inline_data =
  data :: string
  mimeType :: string

record part =
  part_text :: "string option"
  inlineData :: "inline_data option"

record model_response =
  parts :: "part list option"
  response_text :: "string + string"

text \<open>
  The state outside the handlers. \<open>clock\<close> is the sequence of values that successive
  calls of \<^verbatim>\<open>Date.now()\<close> return and \<open>ticks\<close> counts the calls made. \<open>faults\<close> is the
  failure schedule of the external services: the \<open>k\<close>-th awaited call to the object
  store or the document store throws an error with message \<open>m\<close> when \<open>faults k = Some m\<close>,
  and \<open>calls\<close> counts the calls made (an error is represented by the message that the
  handlers report for it). \<open>generateContent\<close> is the model API on an image
  and its MIME type (the prompt is fixed): it throws or returns a reply. The two
  environment variables are read-only.
\<close>

record world =
  objects :: "stored_object list"
  docs :: "string \<rightharpoonup> session_doc"
  generations :: "generation_doc list"
  clock :: "nat \<Rightarrow> int"
  ticks :: nat
  faults :: "nat \<Rightarrow> string option"
  calls :: nat
  generateContent :: "string \<Rightarrow> string \<Rightarrow> string + model_response"
  SYNC_SECRET :: "string option"
  GOOGLE_API_KEY :: "string option"

definition Date_now :: "world \<Rightarrow> jsnum \<times> world" where
  "Date_now w = (Num (clock w (ticks w)), w\<lparr>ticks := Suc (ticks w)\<rparr>)"

text \<open>One awaited call to an external service: the error it throws, if any.\<close>

definition external_call :: "world \<Rightarrow> string option \<times> world" where
  "external_call w = (faults w (calls w), w\<lparr>calls := Suc (calls w)\<rparr>)"

definition bucket_name :: string where
  "bucket_name = ''melaleuca-mirror.firebasestorage.app''"

text \<open>\<^verbatim>\<open>bucket.getFiles({ prefix })\<close>: the names of the objects under the prefix.\<close>

definition getFiles :: "string \<Rightarrow> world \<Rightarrow> (string + string list) \<times> world" where
  "getFiles pfx w =
     (case external_call w of
        (Some m, w') \<Rightarrow> (Inl m, w')
      | (None, w') \<Rightarrow> (Inr (filter (\<lambda>n. startsWith n pfx) (map obj_name (objects w'))), w'))"

text \<open>\<^verbatim>\<open>docRef.get()\<close> followed by \<^verbatim>\<open>doc.exists\<close>.\<close>

definition doc_exists :: "string \<Rightarrow> world \<Rightarrow> (string + bool) \<times> world" where
  "doc_exists sid w =
     (case external_call w of
        (Some m, w') \<Rightarrow> (Inl m, w')
      | (None, w') \<Rightarrow> (Inr (docs w' sid \<noteq> None), w'))"

text \<open>\<^verbatim>\<open>docRef.set(sessionDoc)\<close>.\<close>

definition doc_set :: "string \<Rightarrow> session_doc \<Rightarrow> world \<Rightarrow> (string + unit) \<times> world" where
  "doc_set sid d w =
     (case external_call w of
        (Some m, w') \<Rightarrow> (Inl m, w')
      | (None, w') \<Rightarrow> (Inr (), w'\<lparr>docs := (docs w')(sid \<mapsto> d)\<rparr>))"

section \<open>The reconciliation handler\<close>

text \<open>\<^verbatim>\<open>Set.add\<close>: a set that remembers insertion order, as a list without repetition.\<close>

definition set_add :: "string list \<Rightarrow> string \<Rightarrow> string list" where
  "set_add xs x = (if x \<in> set xs then xs else xs @ [x])"

fun collect_folders :: "string list \<Rightarrow> string list \<Rightarrow> string list" where
  "collect_folders acc [] = acc"
| "collect_folders acc (f # fs) =
     collect_folders (case session_match f of Some sid \<Rightarrow> set_add acc sid | None \<Rightarrow> acc) fs"

definition sessionFolders :: "string list \<Rightarrow> string list" where
  "sessionFolders files = collect_folders [] files"

definition public_url :: "string \<Rightarrow> string" where
  "public_url path = ''https://storage.googleapis.com/'' @ bucket_name @ ''/'' @ path"

text \<open>The callback of \<^verbatim>\<open>foundationFiles.map\<close>, on the name of one object (the
  \<^verbatim>\<open>|| ''\<close> after \<^verbatim>\<open>pop()\<close> changes nothing: the only falsy segment is the empty string).\<close>

definition tryon_of :: "string \<Rightarrow> world \<Rightarrow> tryon \<times> world" where
  "tryon_of f w =
     (let fileName = split_pop f
      in case foundation_match fileName of
           Some (s, ds) \<Rightarrow>
             (\<lparr>sku = s, timestamp = parseInt ds, imageUrl = public_url f\<rparr>, w)
         | None \<Rightarrow>
             (case Date_now w of
                (t, w') \<Rightarrow> (\<lparr>sku = ''unknown'', timestamp = t, imageUrl = public_url f\<rparr>, w')))"

fun tryon_entries :: "string list \<Rightarrow> world \<Rightarrow> tryon list \<times> world" where
  "tryon_entries [] w = ([], w)"
| "tryon_entries (f # fs) w =
     (case tryon_of f w of
        (e, w1) \<Rightarrow> (case tryon_entries fs w1 of (es, w2) \<Rightarrow> (e # es, w2)))"

definition sessionFiles :: "string list \<Rightarrow> string \<Rightarrow> string list" where
  "sessionFiles files sid = filter (\<lambda>n. startsWith n (''sessions/'' @ sid @ ''/'')) files"

definition foundationFiles :: "string list \<Rightarrow> string \<Rightarrow> string list" where
  "foundationFiles files sid =
     filter (\<lambda>n. str_includes n ''foundation-'' \<and> endsWith n ''.jpg'') (sessionFiles files sid)"

text \<open>Lines 48 to 96 of the loop body: the document built for an identifier that has
  none, in the order in which the source reads the clock.\<close>

definition synthesize :: "string list \<Rightarrow> string \<Rightarrow> world \<Rightarrow> session_doc \<times> world" where
  "synthesize files sid w =
     (case (if all_digits sid then (parseInt sid, w) else Date_now w) of
        (created, w1) \<Rightarrow>
          let fileNames = map split_pop (sessionFiles files sid);
              hasOriginal = (''original.jpg'' \<in> set fileNames);
              hasDerendered = (''derendered.jpg'' \<in> set fileNames)
          in case Date_now w1 of
               (synced, w2) \<Rightarrow>
                 (case (if foundationFiles files sid \<noteq> []
                        then tryon_entries (foundationFiles files sid) w2 else ([], w2)) of
                    (tryons, w3) \<Rightarrow>
                      (\<lparr>createdAt = created,
                        originalImageUrl =
                          (if hasOriginal
                           then Some (public_url (''sessions/'' @ sid @ ''/original.jpg''))
                           else None),
                        originalMimeType = ''image/jpeg'',
                        derenderedImageUrl =
                          (if hasDerendered
                           then Some (public_url (''sessions/'' @ sid @ ''/derendered.jpg''))
                           else None),
                        derenderedMimeType = ''image/jpeg'',
                        model = ''gemini-3-pro-image-preview'',
                        derenderPrompt = ''Synced from storage - original prompt not available'',
                        foundationTryons = tryons,
                        doc_status = ''active'',
                        completedAt = None,
                        syncedFromStorage = True,
                        syncedAt = synced\<rparr>, w3)))"

datatype sync_outcome = AlreadyExists | Created

text \<open>The body of the inner \<^verbatim>\<open>try\<close>: \<open>Inl m\<close> when it throws an error with message \<open>m\<close>.\<close>

definition sync_session :: "string list \<Rightarrow> string \<Rightarrow> world \<Rightarrow> (string + sync_outcome) \<times> world" where
  "sync_session files sid w =
     (case doc_exists sid w of
        (Inl m, w1) \<Rightarrow> (Inl m, w1)
      | (Inr True, w1) \<Rightarrow> (Inr AlreadyExists, w1)
      | (Inr False, w1) \<Rightarrow>
          (case synthesize files sid w1 of
             (d, w2) \<Rightarrow>
               (case doc_set sid d w2 of
                  (Inl m, w3) \<Rightarrow> (Inl m, w3)
                | (Inr _, w3) \<Rightarrow> (Inr Created, w3))))"

record detail =
  sessionId :: string
  status :: string
  error :: "string option"

record results =
  totalFolders :: nat
  alreadySynced :: nat
  newlyCreated :: nat
  failed :: nat
  details :: "detail list"

text \<open>One iteration of the loop, with its \<^verbatim>\<open>catch\<close>.\<close>

definition sweep_step :: "string list \<Rightarrow> string \<Rightarrow> results \<Rightarrow> world \<Rightarrow> results \<times> world" where
  "sweep_step files sid r w =
     (case sync_session files sid w of
        (Inr AlreadyExists, w') \<Rightarrow>
          (r\<lparr>alreadySynced := alreadySynced r + 1,
             details := details r @ [\<lparr>sessionId = sid, status = ''already_exists'', error = None\<rparr>]\<rparr>, w')
      | (Inr Created, w') \<Rightarrow>
          (r\<lparr>newlyCreated := newlyCreated r + 1,
             details := details r @ [\<lparr>sessionId = sid, status = ''created'', error = None\<rparr>]\<rparr>, w')
      | (Inl m, w') \<Rightarrow>
          (r\<lparr>failed := failed r + 1,
             details := details r @ [\<lparr>sessionId = sid, status = ''failed'', error = Some m\<rparr>]\<rparr>, w'))"

fun sweep_loop :: "string list \<Rightarrow> string list \<Rightarrow> results \<Rightarrow> world \<Rightarrow> results \<times> world" where
  "sweep_loop files [] r w = (r, w)"
| "sweep_loop files (sid # sids) r w =
     (case sweep_step files sid r w of (r', w') \<Rightarrow> sweep_loop files sids r' w')"

text \<open>The JSON bodies the handlers answer with, and the response with its status
  (\<^verbatim>\<open>NextResponse.json(body)\<close> has status 200). A field that is \<^verbatim>\<open>undefined\<close> is absent
  from the JSON: \<open>None\<close>.\<close>

record dry_results =
  dry_totalFolders :: nat
  inFirestore :: nat
  missingFromFirestore :: nat
  missing :: "string list"

datatype body =
    ErrorBody string "string option"
  | SweepBody results
  | StatusBody dry_results string
  | ImageBody string string
  | NoImageBody string "string option"

datatype response = Response (status_code: nat) (payload: body)

text \<open>
  The body of the sweep request after \<^verbatim>\<open>await req.json().catch(() => ({}))\<close> and the
  destructuring of \<^verbatim>\<open>secret\<close>. \<open>Body_null m\<close> is the JSON text \<^verbatim>\<open>null\<close>, whose destructuring
  throws a \<^verbatim>\<open>TypeError\<close>; \<open>m\<close> is the message the engine gives it. \<open>Body s\<close> is every
  other body: \<open>s\<close> is the secret when the body is an object with a string \<^verbatim>\<open>secret\<close>, and
  \<open>None\<close> otherwise (no JSON, no such field, or a value that is not a string and so
  differs from every configured secret).
\<close>

datatype sweep_request = Body_null string | Body "string option"

definition internal_error :: "string \<Rightarrow> response" where
  "internal_error m = Response 500 (ErrorBody ''Internal Server Error'' (Some m))"

text \<open>A string from the environment is truthy when it is set and not empty.\<close>

definition truthy :: "string option \<Rightarrow> bool" where
  "truthy v = (v \<noteq> None \<and> v \<noteq> Some [])"

definition POST :: "world \<Rightarrow> sweep_request \<Rightarrow> response \<times> world" where
  "POST w req =
     (case req of
        Body_null m \<Rightarrow> (internal_error m, w)
      | Body secret \<Rightarrow>
          if truthy (SYNC_SECRET w) \<and> secret \<noteq> SYNC_SECRET w
          then (Response 401 (ErrorBody ''Unauthorized'' None), w)
          else
            (case getFiles ''sessions/'' w of
               (Inl m, w1) \<Rightarrow> (internal_error m, w1)
             | (Inr files, w1) \<Rightarrow>
                 (case sweep_loop files (sessionFolders files)
                         \<lparr>totalFolders = length (sessionFolders files), alreadySynced = 0,
                          newlyCreated = 0, failed = 0, details = []\<rparr> w1 of
                    (r, w2) \<Rightarrow> (Response 200 (SweepBody r), w2))))"

text \<open>The loop of the dry run has no \<^verbatim>\<open>try\<close> of its own: an error leaves the loop.\<close>

fun status_loop :: "string list \<Rightarrow> dry_results \<Rightarrow> world \<Rightarrow> (string + dry_results) \<times> world" where
  "status_loop [] r w = (Inr r, w)"
| "status_loop (sid # sids) r w =
     (case doc_exists sid w of
        (Inl m, w') \<Rightarrow> (Inl m, w')
      | (Inr True, w') \<Rightarrow> status_loop sids (r\<lparr>inFirestore := inFirestore r + 1\<rparr>) w'
      | (Inr False, w') \<Rightarrow>
          status_loop sids
            (r\<lparr>missingFromFirestore := missingFromFirestore r + 1,
               missing := missing r @ [sid]\<rparr>) w')"

text \<open>A number in a template literal; the decimal digits of an integer (below \<open>10 ^ 21\<close>
  in size, as every count and clock value is).\<close>

fun nat_to_string :: "nat \<Rightarrow> string" where
  "nat_to_string n =
     (if n < 10 then [''0123456789'' ! n]
      else nat_to_string (n div 10) @ [''0123456789'' ! (n mod 10)])"

definition number_to_string :: "jsnum \<Rightarrow> string" where
  "number_to_string x =
     (case x of
        Num i \<Rightarrow> (if i < 0 then ''-'' @ nat_to_string (nat (- i)) else nat_to_string (nat i))
      | Infinity \<Rightarrow> ''Infinity''
      | NaN \<Rightarrow> ''NaN'')"

definition GET :: "world \<Rightarrow> response \<times> world" where
  "GET w =
     (case getFiles ''sessions/'' w of
        (Inl m, w1) \<Rightarrow> (internal_error m, w1)
      | (Inr files, w1) \<Rightarrow>
          (case status_loop (sessionFolders files)
                  \<lparr>dry_totalFolders = length (sessionFolders files), inFirestore = 0,
                   missingFromFirestore = 0, missing = []\<rparr> w1 of
             (Inl m, w2) \<Rightarrow> (internal_error m, w2)
           | (Inr r, w2) \<Rightarrow>
               (Response 200
                  (StatusBody r
                     (nat_to_string (missingFromFirestore r) @
                      '' sessions in Storage are missing from Firestore. Use POST to sync them.'')),
                w2)))"

section \<open>The generation handler\<close>

text \<open>
  The body of the generation request after \<^verbatim>\<open>await req.json()\<close> and the destructuring:
  \<open>Gen_bad_json m\<close> when that throws (no JSON, or \<^verbatim>\<open>null\<close>), otherwise the two fields,
  \<open>None\<close> when absent.
\<close>

datatype gen_request = Gen_bad_json string | Gen_body "string option" "string option"

definition prompt :: string where
  "prompt = ''Remove all makeup to reveal a clean, fresh-faced, natural look. The skin should look healthy and clear with realistic micro-texture, but free of blemishes. Do not smooth the skin excessively.''"

text \<open>\<^verbatim>\<open>mimeType || "image/jpeg"\<close>.\<close>

definition mime_or_default :: "string option \<Rightarrow> string" where
  "mime_or_default m = (if truthy m then the m else ''image/jpeg'')"

text \<open>\<^verbatim>\<open>file.save\<close>: the object of that name is created or replaced.\<close>

definition put_object :: "stored_object \<Rightarrow> stored_object list \<Rightarrow> stored_object list" where
  "put_object ob obs = filter (\<lambda>x. obj_name x \<noteq> obj_name ob) obs @ [ob]"

definition uploadImage ::
  "jsnum \<Rightarrow> string \<Rightarrow> string \<Rightarrow> string \<Rightarrow> world \<Rightarrow> (string + string) \<times> world" where
  "uploadImage ts base64Data fileName imageMimeType w =
     (let path = ''generations/'' @ number_to_string ts @ ''/'' @ fileName
      in case external_call w of
           (Some m, w') \<Rightarrow> (Inl m, w')
         | (None, w') \<Rightarrow>
             (Inr (public_url path),
              w'\<lparr>objects :=
                   put_object \<lparr>obj_name = path, obj_data = base64Data,
                               obj_contentType = imageMimeType, obj_public = True\<rparr>
                     (objects w')\<rparr>))"

text \<open>The inner \<^verbatim>\<open>try\<close> with its \<^verbatim>\<open>catch\<close>, which only logs: the world afterwards.\<close>

definition persist :: "string \<Rightarrow> string option \<Rightarrow> inline_data \<Rightarrow> world \<Rightarrow> world" where
  "persist img mime out w =
     (case Date_now w of
        (ts, w1) \<Rightarrow>
          (case uploadImage ts img ''original.jpg'' (mime_or_default mime) w1 of
             (Inl _, w2) \<Rightarrow> w2
           | (Inr originalUrl, w2) \<Rightarrow>
               (case uploadImage ts (data out) ''processed.jpg'' (mimeType out) w2 of
                  (Inl _, w3) \<Rightarrow> w3
                | (Inr processedUrl, w3) \<Rightarrow>
                    (case external_call w3 of
                       (Some _, w4) \<Rightarrow> w4
                     | (None, w4) \<Rightarrow>
                         w4\<lparr>generations := generations w4 @
                              [\<lparr>gen_timestamp = ts,
                                gen_originalImageUrl = originalUrl,
                                gen_originalMimeType = mime_or_default mime,
                                gen_processedImageUrl = processedUrl,
                                gen_processedMimeType = mimeType out,
                                gen_model = ''gemini-3-pro-image-preview'',
                                gen_prompt = prompt\<rparr>]\<rparr>))))"

text \<open>\<^verbatim>\<open>parts?.find(p => p.inlineData)?.inlineData\<close>.\<close>

definition imageOutput :: "model_response \<Rightarrow> inline_data option" where
  "imageOutput resp =
     (case parts resp of
        None \<Rightarrow> None
      | Some ps \<Rightarrow>
          (case find (\<lambda>p. inlineData p \<noteq> None) ps of
             None \<Rightarrow> None
           | Some p \<Rightarrow> inlineData p))"

definition generation_POST :: "world \<Rightarrow> gen_request \<Rightarrow> response \<times> world" where
  "generation_POST w req =
     (case req of
        Gen_bad_json m \<Rightarrow> (internal_error m, w)
      | Gen_body img mime \<Rightarrow>
          if \<not> truthy img
          then (Response 400 (ErrorBody ''Image data is required'' None), w)
          else if \<not> truthy (GOOGLE_API_KEY w)
          then (Response 500 (ErrorBody ''GOOGLE_API_KEY is not set'' None), w)
          else
            (case generateContent w (the img) (mime_or_default mime) of
               Inl m \<Rightarrow> (internal_error m, w)
             | Inr resp \<Rightarrow>
                 (case imageOutput resp of
                    Some out \<Rightarrow>
                      (Response 200 (ImageBody (data out) (mimeType out)),
                       persist (the img) mime out w)
                  | None \<Rightarrow>
                      (case response_text resp of
                         Inl m \<Rightarrow> (internal_error m, w)
                       | Inr t \<Rightarrow>
                           (Response 200 (NoImageBody ''No image generated by model'' (Some t)),
                            w)))))"

section \<open>Notions of the specification\<close>

text \<open>The names of the objects in the bucket, and those that \<^verbatim>\<open>getFiles\<close> lists under
  \<^verbatim>\<open>sessions/\<close>.\<close>

definition object_names :: "world \<Rightarrow> string list" where
  "object_names w = map obj_name (objects w)"

definition listing :: "world \<Rightarrow> string list" where
  "listing w = filter (\<lambda>n. startsWith n ''sessions/'') (object_names w)"

text \<open>
  The session identifiers of a list of object names, in the words of the specification:
  the first path segment after the prefix of an object \<^verbatim>\<open>sessions/<id>/...\<close>.
\<close>

definition identifiers :: "string list \<Rightarrow> string set" where
  "identifiers files =
     {seg. seg \<noteq> [] \<and> CHR ''/'' \<notin> set seg \<and>
           (\<exists>rest. ''sessions/'' @ seg @ ''/'' @ rest \<in> set files)}"

text \<open>The caller passes the check of the shared secret: none is configured, or the
  request carries the configured one.\<close>

definition authorised :: "world \<Rightarrow> string option \<Rightarrow> bool" where
  "authorised w secret = (\<not> truthy (SYNC_SECRET w) \<or> secret = SYNC_SECRET w)"

text \<open>The tally before the loop.\<close>

definition empty_tally :: "nat \<Rightarrow> results" where
  "empty_tally n =
     \<lparr>totalFolders = n, alreadySynced = 0, newlyCreated = 0, failed = 0, details = []\<rparr>"





text \<open>The result of a handler's step with the objects of its world replaced: the steps of
  the loops never read the objects, so with other objects they compute the same result
  and the same world, objects apart.\<close>

definition with_objects :: "stored_object list \<Rightarrow> 'a \<times> world \<Rightarrow> 'a \<times> world" where
  "with_objects obs p = (fst p, (snd p)\<lparr>objects := obs\<rparr>)"

text \<open>
  The files that yield a try-on entry, in the words of the specification: the objects
  under the session's path whose name contains \<^verbatim>\<open>foundation-\<close> and ends in \<^verbatim>\<open>.jpg\<close>.
\<close>

definition tryon_file :: "string \<Rightarrow> string \<Rightarrow> bool" where
  "tryon_file sid n =
     ((\<exists>rest. n = ''sessions/'' @ sid @ ''/'' @ rest)
      \<and> (\<exists>a b. n = a @ ''foundation-'' @ b)
      \<and> (\<exists>a. n = a @ ''.jpg''))"

text \<open>
  The file name is \<^verbatim>\<open>foundation-<sku>-<digits>.jpg\<close>, with \<open>k\<close> the non-empty run of
  non-hyphens and \<open>ds\<close> the non-empty run of digits: the whole name has the form.
\<close>

definition whole_name :: "string \<Rightarrow> string \<Rightarrow> string \<Rightarrow> bool" where
  "whole_name fileName k ds =
     (k \<noteq> [] \<and> CHR ''-'' \<notin> set k \<and> all_digits ds \<and>
      fileName = ''foundation-'' @ k @ ''-'' @ ds @ ''.jpg'')"

text \<open>
  The form occurs inside the file name, starting at position \<open>i\<close>; and \<open>k\<close>, \<open>ds\<close> are the
  sku and the digits of its first occurrence, the one no other occurrence starts before.
\<close>

definition occurs_at :: "string \<Rightarrow> nat \<Rightarrow> string \<Rightarrow> string \<Rightarrow> bool" where
  "occurs_at fileName i k ds =
     (k \<noteq> [] \<and> CHR ''-'' \<notin> set k \<and> all_digits ds \<and>
      (\<exists>post. drop i fileName = ''foundation-'' @ k @ ''-'' @ ds @ ''.jpg'' @ post))"

definition first_occurrence :: "string \<Rightarrow> string \<Rightarrow> string \<Rightarrow> bool" where
  "first_occurrence fileName k ds =
     (\<exists>i. occurs_at fileName i k ds \<and> (\<forall>j<i. \<forall>k' ds'. \<not> occurs_at fileName j k' ds'))"

section \<open>Concrete inputs\<close>

text \<open>Two replies of the model: one with a single part that carries nothing and no text,
  one whose second part carries an image.\<close>

definition reply_without_image :: model_response where
  "reply_without_image =
     \<lparr>parts = Some [\<lparr>part_text = None, inlineData = None\<rparr>], response_text = Inr ''''\<rparr>"

definition reply_with_image :: model_response where
  "reply_with_image =
     \<lparr>parts = Some [\<lparr>part_text = Some ''done'', inlineData = None\<rparr>,
                    \<lparr>part_text = None,
                     inlineData = Some \<lparr>data = ''QUJD'', mimeType = ''image/png''\<rparr>\<rparr>],
      response_text = Inr ''done''\<rparr>"

text \<open>An object of the given name, and a world with the objects of the given names,
  documents, model reply and failure schedule; the clock starts at 1700000000000 and
  advances by one at each reading.\<close>

definition object_named :: "string \<Rightarrow> stored_object" where
  "object_named n =
     \<lparr>obj_name = n, obj_data = '''', obj_contentType = ''image/jpeg'', obj_public = True\<rparr>"

definition example_world ::
  "string list \<Rightarrow> (string \<rightharpoonup> session_doc) \<Rightarrow> model_response \<Rightarrow> (nat \<Rightarrow> string option) \<Rightarrow> world" where
  "example_world names ds reply fs =
     \<lparr>objects = map object_named names,
      docs = ds, generations = [], clock = (\<lambda>k. 1700000000000 + int k),
      ticks = 0, faults = fs, calls = 0, generateContent = (\<lambda>_ _. Inr reply),
      SYNC_SECRET = None, GOOGLE_API_KEY = Some ''key''\<rparr>"

definition no_faults :: "nat \<Rightarrow> string option" where
  "no_faults = (\<lambda>_. None)"

text \<open>The schedule in which only the call numbered \<open>k\<close> fails, with message \<open>m\<close>.\<close>

definition fault_at :: "nat \<Rightarrow> string \<Rightarrow> nat \<Rightarrow> string option" where
  "fault_at k m = (\<lambda>j. if j = k then Some m else None)"

text \<open>A bucket with two session folders, a file directly under the prefix and an object
  outside it; no document, no failure.\<close>

definition sweep_world :: world where
  "sweep_world =
     example_world
       [''sessions/a/original.jpg'', ''sessions/readme.txt'', ''sessions/a/derendered.jpg'',
        ''sessions/1700000000000/original.jpg'', ''other/x/y.jpg'']
       Map.empty reply_without_image no_faults"

text \<open>The same bucket when the write of the first session's document fails (the listing
  is call 0, the read call 1, the write call 2).\<close>

definition faulty_sweep_world :: world where
  "faulty_sweep_world = sweep_world\<lparr>faults := fault_at 2 ''quota exceeded''\<rparr>"

text \<open>One session folder; the write of its document fails in the first sweep only.\<close>

definition retry_world :: world where
  "retry_world =
     example_world [''sessions/s1/original.jpg''] Map.empty reply_without_image
       (fault_at 2 ''deadline exceeded'')"

text \<open>The same bucket when the read of the second session's document fails.\<close>

definition faulty_read_world :: world where
  "faulty_read_world = sweep_world\<lparr>faults := fault_at 2 ''unavailable''\<rparr>"

text \<open>A session folder whose name is the digits of \<open>2 ^ 53 + 1\<close>.\<close>

definition big_id_world :: world where
  "big_id_world =
     example_world [''sessions/9007199254740993/original.jpg''] Map.empty reply_without_image
       no_faults"

text \<open>A session whose only file \<^verbatim>\<open>original.jpg\<close> lies in a subdirectory.\<close>

definition nested_world :: world where
  "nested_world =
     example_world [''sessions/s1/sub/original.jpg''] Map.empty reply_without_image no_faults"

text \<open>A session with a try-on file that matches the pattern, one that does not, and the
  original.\<close>

definition tryon_world :: world where
  "tryon_world =
     example_world
       [''sessions/s1/foundation-SKU42-1690000000000.jpg'', ''sessions/s1/original.jpg'',
        ''sessions/s1/foundation-badname.jpg'']
       Map.empty reply_without_image no_faults"

text \<open>A session whose one file has the form inside its name, not as its whole name.\<close>

definition anchorless_world :: world where
  "anchorless_world =
     example_world [''sessions/s1/xfoundation-A-12.jpgz.jpg''] Map.empty reply_without_image
       no_faults"

section \<open>The generation handler: properties\<close>

lemma imageOutput_None_iff:
  "imageOutput resp = None \<longleftrightarrow>
     (\<forall>ps. parts resp = Some ps \<longrightarrow> (\<forall>p\<in>set ps. inlineData p = None))"
  by (auto simp: imageOutput_def find_None_iff split: option.splits
        dest: find_Some_iff[THEN iffD1])

text \<open>
  Claim C7, as amended. When the request carries an image, the API key is set, the model
  answers, no part of the answer carries inline data and \<^verbatim>\<open>text()\<close> returns the string
  \<open>t\<close>, the handler answers with status 200 and the body
  \<^verbatim>\<open>{error: "No image generated by model", rawText: t}\<close>, and changes nothing. For an
  answer with no text \<open>t\<close> is the empty string, so the field \<^verbatim>\<open>rawText\<close> is present and
  empty.
\<close>

theorem no_image_reply:
  assumes "truthy img" and "truthy (GOOGLE_API_KEY w)"
    and "generateContent w (the img) (mime_or_default mime) = Inr resp"
    and "\<forall>ps. parts resp = Some ps \<longrightarrow> (\<forall>p\<in>set ps. inlineData p = None)"
    and "response_text resp = Inr t"
  shows "generation_POST w (Gen_body img mime) =
           (Response 200 (NoImageBody ''No image generated by model'' (Some t)), w)"
proof -
  have "imageOutput resp = None"
    using assms(4) by (simp add: imageOutput_None_iff)
  with assms(1,2,3,5) show ?thesis
    by (simp add: generation_POST_def)
qed

theorem no_image_reply_witness:
  "generation_POST (example_world [] Map.empty reply_without_image no_faults)
       (Gen_body (Some ''QQ=='') None) =
     (Response 200 (NoImageBody ''No image generated by model'' (Some '''')),
      example_world [] Map.empty reply_without_image no_faults)"
  by (rule no_image_reply[where resp = reply_without_image])
     (simp_all add: truthy_def example_world_def reply_without_image_def)

text \<open>
  Claim C7 as stated fails. The reply \<open>reply_without_image\<close> has no part with inline data
  and its \<^verbatim>\<open>text()\<close> returns the empty string; the handler answers 200 with
  \<^verbatim>\<open>rawText\<close> present and empty, which is not the body in which \<^verbatim>\<open>rawText\<close> is absent.
\<close>

theorem rawText_absent_counterexample:
  "imageOutput reply_without_image = None
   \<and> response_text reply_without_image = Inr ''''
   \<and> fst (generation_POST (example_world [] Map.empty reply_without_image no_faults)
            (Gen_body (Some ''QQ=='') None)) =
       Response 200 (NoImageBody ''No image generated by model'' (Some ''''))
   \<and> fst (generation_POST (example_world [] Map.empty reply_without_image no_faults)
            (Gen_body (Some ''QQ=='') None)) \<noteq>
       Response 200 (NoImageBody ''No image generated by model'' None)"
  by (simp add: generation_POST_def truthy_def example_world_def reply_without_image_def
        imageOutput_def)

text \<open>What the persistence step does to the stores: nothing when the first upload fails,
  two objects and one record when no call fails.\<close>

lemma persist_first_upload_fails:
  assumes "faults w (calls w) = Some m"
  shows "generations (persist img mime out w) = generations w"
    and "objects (persist img mime out w) = objects w"
  using assms by (simp_all add: persist_def Date_now_def uploadImage_def external_call_def Let_def)

lemma persist_no_fault:
  assumes "faults w (calls w) = None" and "faults w (Suc (calls w)) = None"
    and "faults w (Suc (Suc (calls w))) = None"
  shows "length (generations (persist img mime out w)) = Suc (length (generations w))"
  using assms by (simp add: persist_def Date_now_def uploadImage_def external_call_def Let_def)

text \<open>
  Claim C8. When the request carries an image, the API key is set and the first part of
  the model's answer that carries inline data is \<open>out\<close>, then under every failure schedule
  \<open>fs\<close> of the storage and document-store calls the handler answers with status 200 and
  the body \<^verbatim>\<open>{image: out.data, mimeType: out.mimeType}\<close>: the same response as under the
  schedule with no failure.
\<close>

theorem image_reply_ignores_persistence:
  assumes "truthy img" and "truthy (GOOGLE_API_KEY w)"
    and "generateContent w (the img) (mime_or_default mime) = Inr resp"
    and "imageOutput resp = Some out"
  shows "fst (generation_POST (w\<lparr>faults := fs\<rparr>) (Gen_body img mime)) =
           Response 200 (ImageBody (data out) (mimeType out))
         \<and> fst (generation_POST (w\<lparr>faults := fs\<rparr>) (Gen_body img mime)) =
           fst (generation_POST (w\<lparr>faults := no_faults\<rparr>) (Gen_body img mime))"
  using assms by (simp add: generation_POST_def)

theorem image_reply_ignores_persistence_witness:
  "fst (generation_POST
          (example_world [] Map.empty reply_with_image no_faults\<lparr>faults := fault_at 0 ''unavailable''\<rparr>)
          (Gen_body (Some ''QQ=='') (Some ''image/png''))) =
     Response 200 (ImageBody ''QUJD'' ''image/png'')
   \<and> fst (generation_POST
          (example_world [] Map.empty reply_with_image no_faults\<lparr>faults := fault_at 0 ''unavailable''\<rparr>)
          (Gen_body (Some ''QQ=='') (Some ''image/png''))) =
     fst (generation_POST
          (example_world [] Map.empty reply_with_image no_faults\<lparr>faults := no_faults\<rparr>)
          (Gen_body (Some ''QQ=='') (Some ''image/png'')))"
proof -
  let ?w = "example_world [] Map.empty reply_with_image no_faults"
  let ?out = "\<lparr>data = ''QUJD'', mimeType = ''image/png''\<rparr>"
  have h1: "truthy (Some ''QQ=='')"
    by (simp add: truthy_def)
  have h2: "truthy (GOOGLE_API_KEY ?w)"
    by (simp add: truthy_def example_world_def)
  have h3: "generateContent ?w (the (Some ''QQ=='')) (mime_or_default (Some ''image/png'')) =
              Inr reply_with_image"
    by (simp add: example_world_def)
  have h4: "imageOutput reply_with_image = Some ?out"
    by (simp add: imageOutput_def reply_with_image_def)
  show ?thesis
    by (rule image_reply_ignores_persistence[OF h1 h2 h3 h4, of "fault_at 0 ''unavailable''",
          unfolded inline_data.simps])
qed

section \<open>The reconciliation handler: properties\<close>

text \<open>The anchored expression finds exactly the identifiers of the specification.\<close>

lemma takeWhile_dropWhile_split:
  assumes "takeWhile P xs = ys" and "dropWhile P xs = z # zs"
  shows "xs = ys @ z # zs \<and> \<not> P z \<and> (\<forall>y\<in>set ys. P y)"
proof -
  have "xs = takeWhile P xs @ dropWhile P xs" by simp
  moreover have "\<not> P z" using assms(2) by (metis hd_dropWhile list.distinct(1) list.sel(1))
  moreover have "\<forall>y\<in>set ys. P y" using assms(1) by (auto dest: set_takeWhileD)
  ultimately show ?thesis using assms by simp
qed

lemma session_match_Some_iff:
  "session_match f = Some seg \<longleftrightarrow>
     seg \<noteq> [] \<and> CHR ''/'' \<notin> set seg \<and> (\<exists>rest. f = ''sessions/'' @ seg @ ''/'' @ rest)"
proof
  assume h: "session_match f = Some seg"
  then have p: "prefix ''sessions/'' f"
    by (simp add: session_match_def startsWith_def split: if_splits)
  then obtain r where f: "f = ''sessions/'' @ r" by (auto simp: prefix_def)
  from h f have seg: "takeWhile (\<lambda>c. c \<noteq> CHR ''/'') r = seg" and ne: "seg \<noteq> []"
    and dw: "dropWhile (\<lambda>c. c \<noteq> CHR ''/'') r \<noteq> []"
    by (auto simp: session_match_def startsWith_def Let_def split: if_splits)
  from dw obtain z zs where z: "dropWhile (\<lambda>c. c \<noteq> CHR ''/'') r = z # zs"
    by (cases "dropWhile (\<lambda>c. c \<noteq> CHR ''/'') r") auto
  from takeWhile_dropWhile_split[OF seg z]
  have "r = seg @ z # zs" "z = CHR ''/''" "CHR ''/'' \<notin> set seg" by auto
  with f ne show "seg \<noteq> [] \<and> CHR ''/'' \<notin> set seg \<and> (\<exists>rest. f = ''sessions/'' @ seg @ ''/'' @ rest)"
    by auto
next
  assume "seg \<noteq> [] \<and> CHR ''/'' \<notin> set seg \<and> (\<exists>rest. f = ''sessions/'' @ seg @ ''/'' @ rest)"
  then obtain rest where ne: "seg \<noteq> []" and ns: "CHR ''/'' \<notin> set seg"
    and f: "f = ''sessions/'' @ seg @ ''/'' @ rest" by auto
  have tw: "takeWhile (\<lambda>c. c \<noteq> CHR ''/'') (seg @ CHR ''/'' # rest) = seg"
    using ns by (subst takeWhile_append2) auto
  have dw: "dropWhile (\<lambda>c. c \<noteq> CHR ''/'') (seg @ CHR ''/'' # rest) = CHR ''/'' # rest"
    using ns by (subst dropWhile_append2) auto
  show "session_match f = Some seg"
    using ne tw dw by (simp add: session_match_def startsWith_def f Let_def)
qed

lemma set_add_set: "set (set_add xs x) = insert x (set xs)"
  by (auto simp: set_add_def)

lemma set_add_distinct: "distinct xs \<Longrightarrow> distinct (set_add xs x)"
  by (auto simp: set_add_def)

lemma collect_folders_set:
  "set (collect_folders acc fs) = set acc \<union> {sid. \<exists>f\<in>set fs. session_match f = Some sid}"
  by (induction fs arbitrary: acc) (auto simp: set_add_set split: option.splits)

lemma collect_folders_distinct:
  "distinct acc \<Longrightarrow> distinct (collect_folders acc fs)"
  by (induction fs arbitrary: acc) (auto simp: set_add_distinct split: option.splits)

lemma sessionFolders_distinct: "distinct (sessionFolders files)"
  by (simp add: sessionFolders_def collect_folders_distinct)

lemma sessionFolders_set: "set (sessionFolders files) = identifiers files"
  by (auto simp: sessionFolders_def collect_folders_set identifiers_def session_match_Some_iff)

lemma sessionFolders_length: "length (sessionFolders files) = card (identifiers files)"
  using distinct_card[OF sessionFolders_distinct, of files] by (simp add: sessionFolders_set)

lemma Date_now_frame:
  "Date_now w = (t, w') \<Longrightarrow> w' = w\<lparr>ticks := Suc (ticks w)\<rparr> \<and> t = Num (clock w (ticks w))"
  by (auto simp: Date_now_def)

lemma tryon_of_frame:
  assumes "tryon_of f w = (e, w')"
  shows "w' = w\<lparr>ticks := ticks w'\<rparr> \<and> ticks w \<le> ticks w'"
  using assms by (auto simp: tryon_of_def Date_now_def Let_def split: option.splits prod.splits)

lemma tryon_entries_frame:
  "tryon_entries fs w = (es, w') \<Longrightarrow> w' = w\<lparr>ticks := ticks w'\<rparr> \<and> ticks w \<le> ticks w'"
proof (induction fs arbitrary: w es w')
  case Nil
  then show ?case by simp
next
  case (Cons f fs)
  obtain e w1 where e: "tryon_of f w = (e, w1)" by (cases "tryon_of f w")
  obtain es1 w2 where es: "tryon_entries fs w1 = (es1, w2)" by (cases "tryon_entries fs w1")
  from Cons.prems e es have w': "w' = w2" by simp
  from tryon_of_frame[OF e] have a: "w1 = w\<lparr>ticks := ticks w1\<rparr>" "ticks w \<le> ticks w1" by auto
  from Cons.IH[OF es] have b: "w2 = w1\<lparr>ticks := ticks w2\<rparr>" "ticks w1 \<le> ticks w2" by auto
  have "w2 = w\<lparr>ticks := ticks w2\<rparr>"
    by (subst b(1), subst a(1)) simp
  with a b w' show ?case by simp
qed

lemma synthesize_frame:
  assumes "synthesize files sid w = (d, w')"
  shows "w' = w\<lparr>ticks := ticks w'\<rparr> \<and> ticks w < ticks w'"
proof -
  obtain c w1 where c: "(if all_digits sid then (parseInt sid, w) else Date_now w) = (c, w1)"
    by (cases "if all_digits sid then (parseInt sid, w) else Date_now w")
  then have a: "w1 = w\<lparr>ticks := ticks w1\<rparr>" "ticks w \<le> ticks w1"
    by (auto simp: Date_now_def split: if_splits)
  obtain s w2 where s: "Date_now w1 = (s, w2)" by (cases "Date_now w1")
  then have b: "w2 = w1\<lparr>ticks := Suc (ticks w1)\<rparr>" by (auto simp: Date_now_def)
  obtain ts w3 where t: "(if foundationFiles files sid \<noteq> []
                        then tryon_entries (foundationFiles files sid) w2 else ([], w2)) = (ts, w3)"
    by (cases "if foundationFiles files sid \<noteq> []
                        then tryon_entries (foundationFiles files sid) w2 else ([], w2)")
  then have d: "w3 = w2\<lparr>ticks := ticks w3\<rparr> \<and> ticks w2 \<le> ticks w3"
    by (auto split: if_splits dest: tryon_entries_frame)
  from assms c s t have w': "w' = w3" by (simp add: synthesize_def Let_def)
  have "w3 = w\<lparr>ticks := ticks w3\<rparr>"
    by (subst conjunct1[OF d], subst b, subst a(1)) simp
  moreover have "ticks w2 = Suc (ticks w1)" by (subst b) simp
  then have "ticks w < ticks w3" using a(2) d by linarith
  ultimately show ?thesis using w' by simp
qed

lemma sync_session_read_throws:
  "faults w (calls w) = Some m \<Longrightarrow>
     sync_session files sid w = (Inl m, w\<lparr>calls := Suc (calls w)\<rparr>)"
  by (simp add: sync_session_def doc_exists_def external_call_def)

lemma sync_session_exists:
  "faults w (calls w) = None \<Longrightarrow> docs w sid = Some d \<Longrightarrow>
     sync_session files sid w = (Inr AlreadyExists, w\<lparr>calls := Suc (calls w)\<rparr>)"
  by (simp add: sync_session_def doc_exists_def external_call_def)

lemma sync_session_new:
  assumes "faults w (calls w) = None" and "docs w sid = None"
    and syn: "synthesize files sid (w\<lparr>calls := Suc (calls w)\<rparr>) = (d, w2)"
  shows "sync_session files sid w =
           (case faults w (Suc (calls w)) of
              Some m \<Rightarrow> (Inl m, w2\<lparr>calls := Suc (Suc (calls w))\<rparr>)
            | None \<Rightarrow> (Inr Created, w2\<lparr>calls := Suc (Suc (calls w)), docs := (docs w)(sid \<mapsto> d)\<rparr>))"
proof -
  from synthesize_frame[OF syn]
  have eq: "w2 = w\<lparr>calls := Suc (calls w)\<rparr>\<lparr>ticks := ticks w2\<rparr>" by simp
  have f: "faults w2 = faults w" "calls w2 = Suc (calls w)" "docs w2 = docs w"
    by (subst eq, simp)+
  show ?thesis
    using assms(1,2) syn f
    by (simp add: sync_session_def doc_exists_def doc_set_def external_call_def
          split: option.splits)
qed

text \<open>What one pass through the inner try does to the world.\<close>

lemma sync_session_effect:
  assumes "sync_session files sid w = (res, w')"
  shows "objects w' = objects w \<and> faults w' = faults w \<and> clock w' = clock w
       \<and> SYNC_SECRET w' = SYNC_SECRET w \<and> calls w < calls w' \<and> ticks w \<le> ticks w'
       \<and> (case res of
            Inl m \<Rightarrow> docs w' = docs w
          | Inr AlreadyExists \<Rightarrow> docs w' = docs w \<and> docs w sid \<noteq> None
          | Inr Created \<Rightarrow> docs w sid = None \<and> (\<exists>d. docs w' = (docs w)(sid \<mapsto> d)))"
proof (cases "faults w (calls w)")
  case (Some m)
  from assms sync_session_read_throws[OF Some, of files sid] show ?thesis by auto
next
  case None
  show ?thesis
  proof (cases "docs w sid")
    case (Some d)
    from assms sync_session_exists[OF None Some, of files] Some show ?thesis by auto
  next
    case dn: None
    obtain d w2 where syn: "synthesize files sid (w\<lparr>calls := Suc (calls w)\<rparr>) = (d, w2)"
      by (cases "synthesize files sid (w\<lparr>calls := Suc (calls w)\<rparr>)")
    from synthesize_frame[OF syn]
    have eq: "w2 = w\<lparr>calls := Suc (calls w)\<rparr>\<lparr>ticks := ticks w2\<rparr>"
      and tk: "ticks w < ticks w2" by simp_all
    have f: "objects w2 = objects w" "faults w2 = faults w" "clock w2 = clock w"
      "SYNC_SECRET w2 = SYNC_SECRET w" "docs w2 = docs w"
      by (subst eq, simp)+
    from assms sync_session_new[OF None dn syn] f tk dn show ?thesis
      by (auto split: option.splits)
  qed
qed

lemma sweep_step_effect:
  assumes "sweep_step files sid r w = (r', w')"
  shows "totalFolders r' = totalFolders r
       \<and> alreadySynced r' + newlyCreated r' + failed r' =
           Suc (alreadySynced r + newlyCreated r + failed r)
       \<and> map sessionId (details r') = map sessionId (details r) @ [sid]
       \<and> failed r \<le> failed r'"
  using assms
  by (auto simp: sweep_step_def split: prod.splits sum.splits sync_outcome.splits)

lemma sweep_loop_tally:
  "sweep_loop files ids r w = (r', w') \<Longrightarrow>
     totalFolders r' = totalFolders r
     \<and> alreadySynced r' + newlyCreated r' + failed r' =
         alreadySynced r + newlyCreated r + failed r + length ids
     \<and> map sessionId (details r') = map sessionId (details r) @ ids
     \<and> failed r \<le> failed r'"
proof (induction ids arbitrary: r w)
  case Nil
  then show ?case by simp
next
  case (Cons sid ids)
  obtain r1 w1 where st: "sweep_step files sid r w = (r1, w1)"
    by (cases "sweep_step files sid r w")
  with Cons.prems have "sweep_loop files ids r1 w1 = (r', w')" by simp
  from Cons.IH[OF this] sweep_step_effect[OF st] show ?case by simp
qed

lemma getFiles_ok:
  "faults w (calls w) = None \<Longrightarrow>
     getFiles ''sessions/'' w = (Inr (listing w), w\<lparr>calls := Suc (calls w)\<rparr>)"
  by (simp add: getFiles_def external_call_def listing_def object_names_def)

lemma identifiers_listing: "identifiers (listing w) = identifiers (object_names w)"
  by (auto simp: identifiers_def listing_def startsWith_def)

lemma POST_sweeps:
  assumes "authorised w secret" and "faults w (calls w) = None"
  shows "POST w (Body secret) =
           (case sweep_loop (listing w) (sessionFolders (listing w))
                   (empty_tally (length (sessionFolders (listing w))))
                   (w\<lparr>calls := Suc (calls w)\<rparr>) of
              (r, w2) \<Rightarrow> (Response 200 (SweepBody r), w2))"
  using assms by (auto simp: POST_def authorised_def getFiles_ok empty_tally_def)

text \<open>
  Claim C1. When the caller is authorised and the listing succeeds, the write-mode sweep
  answers with status 200 and a tally in which \<open>totalFolders\<close> is the number \<open>n\<close> of
  distinct session identifiers of the bucket (first path segment after \<^verbatim>\<open>sessions/\<close>),
  \<open>alreadySynced + newlyCreated + failed = n\<close>, and the detail entries name each
  identifier exactly once, whatever the failure schedule of the document store.
\<close>

theorem sweep_tally:
  assumes "authorised w secret" and "faults w (calls w) = None"
  shows "\<exists>r w'. POST w (Body secret) = (Response 200 (SweepBody r), w')
           \<and> totalFolders r = card (identifiers (object_names w))
           \<and> alreadySynced r + newlyCreated r + failed r = card (identifiers (object_names w))
           \<and> map sessionId (details r) = sessionFolders (listing w)
           \<and> distinct (map sessionId (details r))
           \<and> set (map sessionId (details r)) = identifiers (object_names w)"
proof -
  let ?ids = "sessionFolders (listing w)"
  obtain r w' where loop: "sweep_loop (listing w) ?ids (empty_tally (length ?ids))
                             (w\<lparr>calls := Suc (calls w)\<rparr>) = (r, w')"
    by (cases "sweep_loop (listing w) ?ids (empty_tally (length ?ids)) (w\<lparr>calls := Suc (calls w)\<rparr>)")
  have n: "length ?ids = card (identifiers (object_names w))"
    by (simp add: sessionFolders_length identifiers_listing)
  from sweep_loop_tally[OF loop]
  have t: "totalFolders r = length ?ids"
    "alreadySynced r + newlyCreated r + failed r = length ?ids"
    "map sessionId (details r) = ?ids"
    by (simp_all add: empty_tally_def)
  have p: "POST w (Body secret) = (Response 200 (SweepBody r), w')"
    using POST_sweeps[OF assms] loop by simp
  have d: "distinct (map sessionId (details r))"
    by (simp only: t(3) sessionFolders_distinct)
  have s: "set (map sessionId (details r)) = identifiers (object_names w)"
    by (simp only: t(3) sessionFolders_set identifiers_listing)
  have "POST w (Body secret) = (Response 200 (SweepBody r), w')
           \<and> totalFolders r = card (identifiers (object_names w))
           \<and> alreadySynced r + newlyCreated r + failed r = card (identifiers (object_names w))
           \<and> map sessionId (details r) = sessionFolders (listing w)
           \<and> distinct (map sessionId (details r))
           \<and> set (map sessionId (details r)) = identifiers (object_names w)"
    using p t(1,2)[unfolded n] t(3) d s by (intro conjI)
  then show ?thesis by (intro exI)
qed

lemma sweep_world_listing:
  "listing sweep_world =
     [''sessions/a/original.jpg'', ''sessions/readme.txt'', ''sessions/a/derendered.jpg'',
      ''sessions/1700000000000/original.jpg'']"
  by (simp add: listing_def object_names_def sweep_world_def example_world_def object_named_def
        startsWith_def)

lemma sweep_world_folders: "sessionFolders (listing sweep_world) = [''a'', ''1700000000000'']"
  by (simp add: sweep_world_listing sessionFolders_def session_match_def startsWith_def
        set_add_def)

theorem sweep_tally_witness:
  "\<exists>r w'. POST sweep_world (Body None) = (Response 200 (SweepBody r), w')
           \<and> totalFolders r = 2
           \<and> alreadySynced r + newlyCreated r + failed r = 2
           \<and> map sessionId (details r) = [''a'', ''1700000000000'']"
proof -
  have a: "authorised sweep_world None"
    by (simp add: authorised_def truthy_def sweep_world_def example_world_def)
  have f: "faults sweep_world (calls sweep_world) = None"
    by (simp add: sweep_world_def example_world_def no_faults_def)
  have n: "card (identifiers (object_names sweep_world)) = 2"
    using sessionFolders_length[of "listing sweep_world"]
    by (simp add: sweep_world_folders identifiers_listing)
  from sweep_tally[OF a f] obtain r w' where
    "POST sweep_world (Body None) = (Response 200 (SweepBody r), w')"
    "totalFolders r = 2" "alreadySynced r + newlyCreated r + failed r = 2"
    "map sessionId (details r) = [''a'', ''1700000000000'']"
    unfolding n sweep_world_folders by (elim exE conjE)
  then have "POST sweep_world (Body None) = (Response 200 (SweepBody r), w')
           \<and> totalFolders r = 2
           \<and> alreadySynced r + newlyCreated r + failed r = 2
           \<and> map sessionId (details r) = [''a'', ''1700000000000'']"
    by (intro conjI)
  then show ?thesis by (intro exI)
qed








text \<open>The equations that evaluate a sweep on a concrete world.\<close>

lemmas eval_defs = POST_def getFiles_def external_call_def example_world_def object_named_def
  fault_at_def
  no_faults_def truthy_def startsWith_def sessionFolders_def session_match_def set_add_def
  sweep_step_def sync_session_def doc_exists_def doc_set_def synthesize_def Date_now_def
  all_digits_def is_digit_def sessionFiles_def foundationFiles_def split_pop_def
  str_includes_def endsWith_def public_url_def bucket_name_def Let_def
  sublist_Cons_right suffix_to_prefix tryon_of_def foundation_match_here_def


text \<open>The tally of that sweep, computed.\<close>

lemma faulty_sweep_result:
  "fst (POST faulty_sweep_world (Body None)) =
     Response 200 (SweepBody
       \<lparr>totalFolders = 2, alreadySynced = 0, newlyCreated = 1, failed = 1,
        details = [\<lparr>sessionId = ''a'', status = ''failed'', error = Some ''quota exceeded''\<rparr>,
                   \<lparr>sessionId = ''1700000000000'', status = ''created'', error = None\<rparr>]\<rparr>)"
  by (simp add: faulty_sweep_world_def sweep_world_def eval_defs parseInt_def to_number_def
        decimal_value_def digit_val_def)

lemma POST_tally_inv:
  assumes "POST w req = (Response 200 (SweepBody r), w')"
  shows "\<exists>secret. req = Body secret \<and> authorised w secret \<and> faults w (calls w) = None
           \<and> sweep_loop (listing w) (sessionFolders (listing w))
                (empty_tally (length (sessionFolders (listing w))))
                (w\<lparr>calls := Suc (calls w)\<rparr>) = (r, w')"
proof (cases req)
  case (Body_null m)
  with assms show ?thesis by (simp add: POST_def internal_error_def)
next
  case (Body secret)
  with assms have a: "authorised w secret"
    by (auto simp: POST_def authorised_def split: if_splits)
  have f: "faults w (calls w) = None"
  proof (cases "faults w (calls w)")
    case None
    then show ?thesis .
  next
    case (Some m)
    with assms Body a show ?thesis
      by (auto simp: POST_def authorised_def getFiles_def external_call_def internal_error_def
            split: if_splits)
  qed
  from POST_sweeps[OF a f] assms Body show ?thesis
    using a f by (auto split: prod.splits)
qed

lemma sweep_step_frame:
  assumes "sweep_step files sid r w = (r', w')"
  shows "objects w' = objects w \<and> faults w' = faults w \<and> SYNC_SECRET w' = SYNC_SECRET w
       \<and> docs w \<subseteq>\<^sub>m docs w'"
proof -
  obtain res w2 where ss: "sync_session files sid w = (res, w2)"
    by (cases "sync_session files sid w")
  with assms have "w' = w2"
    by (auto simp: sweep_step_def split: sum.splits sync_outcome.splits)
  with sync_session_effect[OF ss] show ?thesis
    by (auto simp: map_le_def split: sum.splits sync_outcome.splits)
qed

lemma sweep_loop_frame:
  "sweep_loop files ids r w = (r', w') \<Longrightarrow>
     objects w' = objects w \<and> faults w' = faults w \<and> SYNC_SECRET w' = SYNC_SECRET w
     \<and> docs w \<subseteq>\<^sub>m docs w'"
proof (induction ids arbitrary: r w)
  case Nil
  then show ?case by simp
next
  case (Cons sid ids)
  obtain r1 w1 where st: "sweep_step files sid r w = (r1, w1)"
    by (cases "sweep_step files sid r w")
  with Cons.prems have "sweep_loop files ids r1 w1 = (r', w')" by simp
  from Cons.IH[OF this] sweep_step_frame[OF st] show ?case
    by (auto intro: map_le_trans)
qed

text \<open>A sweep without failure leaves a document for every identifier, and a sweep
  without failure over identifiers that all have a document only counts them.\<close>

lemma sweep_step_not_failed:
  assumes "sweep_step files sid r w = (r', w')" and "failed r' = failed r"
  shows "docs w' sid \<noteq> None"
proof -
  obtain res w2 where ss: "sync_session files sid w = (res, w2)"
    by (cases "sync_session files sid w")
  with assms have "w' = w2 \<and> (\<exists>x. res = Inr x)"
    by (auto simp: sweep_step_def split: sum.splits sync_outcome.splits)
  then obtain x where w': "w' = w2" and res: "res = Inr x" by blast
  show ?thesis
    using sync_session_effect[OF ss] w' res by (cases x) auto
qed

lemma map_le_present: "m \<subseteq>\<^sub>m m' \<Longrightarrow> m k \<noteq> None \<Longrightarrow> m' k \<noteq> None"
  by (metis domIff map_le_def)

lemma sweep_loop_no_failure_docs:
  "sweep_loop files ids r w = (r', w') \<Longrightarrow> failed r' = failed r \<Longrightarrow>
     \<forall>sid\<in>set ids. docs w' sid \<noteq> None"
proof (induction ids arbitrary: r w)
  case Nil
  then show ?case by simp
next
  case (Cons sid ids)
  obtain r1 w1 where st: "sweep_step files sid r w = (r1, w1)"
    by (cases "sweep_step files sid r w")
  with Cons.prems have rest: "sweep_loop files ids r1 w1 = (r', w')" by simp
  have "failed r \<le> failed r1" using sweep_step_effect[OF st] by simp
  moreover have "failed r1 \<le> failed r'" using sweep_loop_tally[OF rest] by simp
  ultimately have e: "failed r1 = failed r" "failed r' = failed r1"
    using Cons.prems(2) by simp_all
  have "docs w1 sid \<noteq> None" using sweep_step_not_failed[OF st e(1)] .
  moreover have "docs w1 \<subseteq>\<^sub>m docs w'" using sweep_loop_frame[OF rest] by simp
  ultimately have "docs w' sid \<noteq> None" by (rule map_le_present[rotated])
  with Cons.IH[OF rest e(2)] show ?case by simp
qed

lemma sweep_step_present:
  assumes "sweep_step files sid r w = (r', w')" and "failed r' = failed r"
    and "docs w sid \<noteq> None"
  shows "alreadySynced r' = Suc (alreadySynced r) \<and> newlyCreated r' = newlyCreated r
       \<and> docs w' = docs w"
proof -
  obtain res w2 where ss: "sync_session files sid w = (res, w2)"
    by (cases "sync_session files sid w")
  with assms sync_session_effect[OF ss] show ?thesis
    by (auto simp: sweep_step_def split: sum.splits sync_outcome.splits)
qed

lemma sweep_loop_all_present:
  "sweep_loop files ids r w = (r', w') \<Longrightarrow> failed r' = failed r \<Longrightarrow>
   \<forall>sid\<in>set ids. docs w sid \<noteq> None \<Longrightarrow>
     alreadySynced r' = alreadySynced r + length ids \<and> newlyCreated r' = newlyCreated r
     \<and> docs w' = docs w"
proof (induction ids arbitrary: r w)
  case Nil
  then show ?case by simp
next
  case (Cons sid ids)
  obtain r1 w1 where st: "sweep_step files sid r w = (r1, w1)"
    by (cases "sweep_step files sid r w")
  with Cons.prems have rest: "sweep_loop files ids r1 w1 = (r', w')" by simp
  have "failed r \<le> failed r1" using sweep_step_effect[OF st] by simp
  moreover have "failed r1 \<le> failed r'" using sweep_loop_tally[OF rest] by simp
  ultimately have e: "failed r1 = failed r" "failed r' = failed r1"
    using Cons.prems(2) by simp_all
  from Cons.prems(3) have here: "docs w sid \<noteq> None" by simp
  from sweep_step_present[OF st e(1) here]
  have s: "alreadySynced r1 = Suc (alreadySynced r)" "newlyCreated r1 = newlyCreated r"
    "docs w1 = docs w" by simp_all
  from Cons.prems(3) s(3) have "\<forall>sid\<in>set ids. docs w1 sid \<noteq> None" by simp
  from Cons.IH[OF rest e(2) this] s show ?case by simp
qed

text \<open>
  Claim C2, as amended. A sweep never overwrites or removes a session record: the
  documents before it are among the documents after it. When two sweeps run in
  succession, both answer with a tally and neither reports a failure (\<open>failed = 0\<close>),
  the second sweep writes nothing and reports \<open>newlyCreated = 0\<close> and
  \<open>alreadySynced = n\<close>, the number of distinct session identifiers of the bucket.
\<close>

theorem second_sweep_finds_all:
  assumes first: "POST w (Body secret) = (Response 200 (SweepBody r1), w1)"
    and ok1: "failed r1 = 0"
    and second: "POST w1 (Body secret') = (Response 200 (SweepBody r2), w2)"
    and ok2: "failed r2 = 0"
  shows "docs w \<subseteq>\<^sub>m docs w1 \<and> docs w2 = docs w1
       \<and> newlyCreated r2 = 0
       \<and> alreadySynced r2 = card (identifiers (object_names w))
       \<and> totalFolders r2 = card (identifiers (object_names w))"
proof -
  let ?ids = "sessionFolders (listing w)"
  from POST_tally_inv[OF first]
  have loop1: "sweep_loop (listing w) ?ids (empty_tally (length ?ids))
                 (w\<lparr>calls := Suc (calls w)\<rparr>) = (r1, w1)" by auto
  from sweep_loop_frame[OF loop1]
  have fr: "objects w1 = objects w" "docs w \<subseteq>\<^sub>m docs w1" by simp_all
  then have l: "listing w1 = listing w" by (simp add: listing_def object_names_def)
  have present: "\<forall>sid\<in>set ?ids. docs w1 sid \<noteq> None"
    using sweep_loop_no_failure_docs[OF loop1] ok1 by (simp add: empty_tally_def)
  from POST_tally_inv[OF second] l
  have loop2: "sweep_loop (listing w) ?ids (empty_tally (length ?ids))
                 (w1\<lparr>calls := Suc (calls w1)\<rparr>) = (r2, w2)" by auto
  have "alreadySynced r2 = alreadySynced (empty_tally (length ?ids)) + length ?ids
        \<and> newlyCreated r2 = newlyCreated (empty_tally (length ?ids))
        \<and> docs w2 = docs (w1\<lparr>calls := Suc (calls w1)\<rparr>)"
    using present ok2 by (intro sweep_loop_all_present[OF loop2]) (simp_all add: empty_tally_def)
  moreover have "totalFolders r2 = length ?ids"
    using sweep_loop_tally[OF loop2] by (simp add: empty_tally_def)
  moreover have "length ?ids = card (identifiers (object_names w))"
    by (simp add: sessionFolders_length identifiers_listing)
  ultimately show ?thesis using fr(2) by (simp add: empty_tally_def)
qed

theorem second_sweep_finds_all_witness:
  "docs sweep_world \<subseteq>\<^sub>m docs (snd (POST sweep_world (Body None)))
   \<and> docs (snd (POST (snd (POST sweep_world (Body None))) (Body None))) =
       docs (snd (POST sweep_world (Body None)))
   \<and> fst (POST sweep_world (Body None)) =
       Response 200 (SweepBody
         \<lparr>totalFolders = 2, alreadySynced = 0, newlyCreated = 2, failed = 0,
          details = [\<lparr>sessionId = ''a'', status = ''created'', error = None\<rparr>,
                     \<lparr>sessionId = ''1700000000000'', status = ''created'', error = None\<rparr>]\<rparr>)
   \<and> fst (POST (snd (POST sweep_world (Body None))) (Body None)) =
       Response 200 (SweepBody
         \<lparr>totalFolders = 2, alreadySynced = 2, newlyCreated = 0, failed = 0,
          details = [\<lparr>sessionId = ''a'', status = ''already_exists'', error = None\<rparr>,
                     \<lparr>sessionId = ''1700000000000'', status = ''already_exists'', error = None\<rparr>]\<rparr>)"
proof -
  let ?r1 = "\<lparr>totalFolders = 2, alreadySynced = 0, newlyCreated = 2, failed = 0,
          details = [\<lparr>sessionId = ''a'', status = ''created'', error = None\<rparr>,
                     \<lparr>sessionId = ''1700000000000'', status = ''created'', error = None\<rparr>]\<rparr>"
  let ?r2 = "\<lparr>totalFolders = 2, alreadySynced = 2, newlyCreated = 0, failed = 0,
          details = [\<lparr>sessionId = ''a'', status = ''already_exists'', error = None\<rparr>,
                     \<lparr>sessionId = ''1700000000000'', status = ''already_exists'', error = None\<rparr>]\<rparr>"
  let ?w1 = "snd (POST sweep_world (Body None))"
  let ?w2 = "snd (POST ?w1 (Body None))"
  have e1: "fst (POST sweep_world (Body None)) = Response 200 (SweepBody ?r1)"
    by (simp add: sweep_world_def eval_defs parseInt_def to_number_def decimal_value_def
          digit_val_def)
  have e2: "fst (POST ?w1 (Body None)) = Response 200 (SweepBody ?r2)"
    by (simp add: sweep_world_def eval_defs parseInt_def to_number_def decimal_value_def
          digit_val_def)
  have p1: "POST sweep_world (Body None) = (Response 200 (SweepBody ?r1), ?w1)"
    using e1 by (metis prod.collapse)
  have p2: "POST ?w1 (Body None) = (Response 200 (SweepBody ?r2), ?w2)"
    using e2 by (metis prod.collapse)
  have "docs sweep_world \<subseteq>\<^sub>m docs ?w1 \<and> docs ?w2 = docs ?w1"
    using second_sweep_finds_all[OF p1 _ p2] by simp
  with e1 e2 show ?thesis by simp
qed

text \<open>
  Claim C2 as stated fails. In \<open>retry_world\<close> the one write of the first sweep fails, so the
  sweep leaves storage and documents unchanged; the second sweep, run directly after it,
  creates the record: \<open>newlyCreated = 1\<close> and \<open>alreadySynced = 0\<close> for \<open>n = 1\<close>.
\<close>

theorem retry_creates_counterexample:
  "fst (POST retry_world (Body None)) =
     Response 200 (SweepBody
       \<lparr>totalFolders = 1, alreadySynced = 0, newlyCreated = 0, failed = 1,
        details = [\<lparr>sessionId = ''s1'', status = ''failed'', error = Some ''deadline exceeded''\<rparr>]\<rparr>)
   \<and> objects (snd (POST retry_world (Body None))) = objects retry_world
   \<and> docs (snd (POST retry_world (Body None))) = docs retry_world
   \<and> fst (POST (snd (POST retry_world (Body None))) (Body None)) =
     Response 200 (SweepBody
       \<lparr>totalFolders = 1, alreadySynced = 0, newlyCreated = 1, failed = 0,
        details = [\<lparr>sessionId = ''s1'', status = ''created'', error = None\<rparr>]\<rparr>)"
  by (simp add: retry_world_def eval_defs)

text \<open>The loop of the dry run stops at the first read that throws.\<close>

lemma doc_exists_throws:
  "faults w (calls w) = Some m \<Longrightarrow> doc_exists sid w = (Inl m, w\<lparr>calls := Suc (calls w)\<rparr>)"
  by (simp add: doc_exists_def external_call_def)

lemma doc_exists_ok:
  "faults w (calls w) = None \<Longrightarrow>
     doc_exists sid w = (Inr (docs w sid \<noteq> None), w\<lparr>calls := Suc (calls w)\<rparr>)"
  by (simp add: doc_exists_def external_call_def)

lemma status_loop_throws:
  "k < length ids \<Longrightarrow> faults w (calls w + k) = Some m \<Longrightarrow>
   \<forall>j<k. faults w (calls w + j) = None \<Longrightarrow>
     \<exists>w'. status_loop ids r w = (Inl m, w') \<and> docs w' = docs w"
proof (induction ids arbitrary: k r w)
  case Nil
  then show ?case by simp
next
  case (Cons sid ids)
  show ?case
  proof (cases k)
    case 0
    with Cons.prems(2) have "faults w (calls w) = Some m" by simp
    then show ?thesis by (simp add: doc_exists_throws)
  next
    case (Suc k')
    let ?w1 = "w\<lparr>calls := Suc (calls w)\<rparr>"
    from Cons.prems(3) Suc have ok: "faults w (calls w) = None" by force
    have a: "k' < length ids" using Cons.prems(1) Suc by simp
    have b: "faults ?w1 (calls ?w1 + k') = Some m" using Cons.prems(2) Suc by simp
    have c: "\<forall>j<k'. faults ?w1 (calls ?w1 + j) = None"
    proof (intro allI impI)
      fix j assume "j < k'"
      then have "Suc j < k" using Suc by simp
      with Cons.prems(3) have "faults w (calls w + Suc j) = None" by blast
      then show "faults ?w1 (calls ?w1 + j) = None" by simp
    qed
    from Cons.IH[OF a b c] have
      "\<And>r'. \<exists>w'. status_loop ids r' ?w1 = (Inl m, w') \<and> docs w' = docs w" by simp
    then show ?thesis by (cases "docs w sid") (simp_all add: doc_exists_ok[OF ok])
  qed
qed

text \<open>
  Claim C9. When the listing of the dry run succeeds and the read for the identifier at
  position \<open>k\<close> is the first to throw, with message \<open>m\<close>, the dry run answers with status
  500 and the body \<^verbatim>\<open>{error: "Internal Server Error", details: m}\<close>, which carries no
  tally, and writes nothing; the write-mode sweep in the same world, for an authorised
  caller, still answers 200 with a tally.
\<close>

theorem dry_run_not_isolated:
  assumes "faults w (calls w) = None"
    and "k < length (sessionFolders (listing w))"
    and "faults w (Suc (calls w) + k) = Some m"
    and "\<forall>j<k. faults w (Suc (calls w) + j) = None"
  shows "fst (GET w) = Response 500 (ErrorBody ''Internal Server Error'' (Some m))
       \<and> docs (snd (GET w)) = docs w
       \<and> (authorised w secret \<longrightarrow>
            (\<exists>r. fst (POST w (Body secret)) = Response 200 (SweepBody r)))"
proof -
  let ?w1 = "w\<lparr>calls := Suc (calls w)\<rparr>"
  let ?ids = "sessionFolders (listing w)"
  let ?r0 = "\<lparr>dry_totalFolders = length ?ids, inFirestore = 0, missingFromFirestore = 0, missing = []\<rparr>"
  have b: "faults ?w1 (calls ?w1 + k) = Some m" using assms(3) by simp
  have c: "\<forall>j<k. faults ?w1 (calls ?w1 + j) = None" using assms(4) by simp
  from status_loop_throws[OF assms(2) b c, of ?r0] obtain w' where
    l: "status_loop ?ids ?r0 ?w1 = (Inl m, w')" and d: "docs w' = docs w" by auto
  have g: "GET w = (internal_error m, w')"
    using l by (simp add: GET_def getFiles_ok[OF assms(1)])
  have p: "authorised w secret \<longrightarrow> (\<exists>r. fst (POST w (Body secret)) = Response 200 (SweepBody r))"
  proof
    assume a: "authorised w secret"
    show "\<exists>r. fst (POST w (Body secret)) = Response 200 (SweepBody r)"
      using POST_sweeps[OF a assms(1)] by (auto split: prod.splits)
  qed
  from g d p show ?thesis by (simp add: internal_error_def)
qed

theorem dry_run_not_isolated_witness:
  "fst (GET faulty_read_world) = Response 500 (ErrorBody ''Internal Server Error'' (Some ''unavailable''))
   \<and> docs (snd (GET faulty_read_world)) = docs faulty_read_world
   \<and> (\<exists>r. fst (POST faulty_read_world (Body None)) = Response 200 (SweepBody r))"
proof -
  let ?w = faulty_read_world
  have l: "listing ?w = listing sweep_world"
    by (simp add: faulty_read_world_def listing_def object_names_def)
  have a: "authorised ?w None"
    by (simp add: authorised_def truthy_def faulty_read_world_def sweep_world_def
          example_world_def)
  have f: "faults ?w (calls ?w) = None"
    by (simp add: faulty_read_world_def sweep_world_def example_world_def fault_at_def)
  have k: "1 < length (sessionFolders (listing ?w))"
    by (simp add: l sweep_world_folders)
  have t: "faults ?w (Suc (calls ?w) + 1) = Some ''unavailable''"
    by (simp add: faulty_read_world_def sweep_world_def example_world_def fault_at_def)
  have n: "\<forall>j<1. faults ?w (Suc (calls ?w) + j) = None"
    by (simp add: faulty_read_world_def sweep_world_def example_world_def fault_at_def)
  from dry_run_not_isolated[OF f k t n, of None] a show ?thesis by simp
qed

text \<open>The dry run of the same bucket when nothing fails.\<close>

lemma dry_run_without_fault:
  "fst (GET sweep_world) =
     Response 200 (StatusBody
       \<lparr>dry_totalFolders = 2, inFirestore = 0, missingFromFirestore = 2,
        missing = [''a'', ''1700000000000'']\<rparr>
       ''2 sessions in Storage are missing from Firestore. Use POST to sync them.'')"
  by (simp add: GET_def sweep_world_def eval_defs)

text \<open>A file directly under the prefix matches no folder and lies in no session.\<close>

lemma session_match_no_folder:
  assumes "CHR ''/'' \<notin> set x"
  shows "session_match (''sessions/'' @ x) = None"
proof -
  have "dropWhile (\<lambda>c. c \<noteq> CHR ''/'') x = []" using assms by (induction x) auto
  then show ?thesis using assms by (auto simp: session_match_def startsWith_def Let_def)
qed

lemma synthesize_cong:
  assumes "sessionFiles f1 sid = sessionFiles f2 sid"
  shows "synthesize f1 sid w = synthesize f2 sid w"
proof -
  have ff: "foundationFiles f1 sid = foundationFiles f2 sid"
    by (simp add: foundationFiles_def assms)
  show ?thesis unfolding synthesize_def assms ff by (rule refl)
qed

lemma sync_session_cong:
  assumes "sessionFiles f1 sid = sessionFiles f2 sid"
  shows "sync_session f1 sid w = sync_session f2 sid w"
  unfolding sync_session_def synthesize_cong[OF assms] by (rule refl)

lemma objects_outward:
  "w\<lparr>objects := obs\<rparr>\<lparr>calls := c\<rparr> = w\<lparr>calls := c\<rparr>\<lparr>objects := obs\<rparr>"
  "w\<lparr>objects := obs\<rparr>\<lparr>ticks := t\<rparr> = w\<lparr>ticks := t\<rparr>\<lparr>objects := obs\<rparr>"
  "w\<lparr>objects := obs\<rparr>\<lparr>docs := ds\<rparr> = w\<lparr>docs := ds\<rparr>\<lparr>objects := obs\<rparr>"
  by simp_all

lemma Date_now_objects: "Date_now (w\<lparr>objects := obs\<rparr>) = with_objects obs (Date_now w)"
  by (simp add: Date_now_def with_objects_def)

lemma tryon_of_objects: "tryon_of f (w\<lparr>objects := obs\<rparr>) = with_objects obs (tryon_of f w)"
  by (simp add: tryon_of_def Date_now_def with_objects_def Let_def split: option.splits)

lemma collect_folders_append:
  "collect_folders acc (xs @ ys) = collect_folders (collect_folders acc xs) ys"
  by (induction xs arbitrary: acc) auto

lemma collect_folders_skip:
  "session_match f = None \<Longrightarrow> collect_folders acc (xs @ f # ys) = collect_folders acc (xs @ ys)"
  by (simp add: collect_folders_append)

lemma not_in_session_folder:
  assumes "CHR ''/'' \<notin> set x"
  shows "\<not> startsWith (''sessions/'' @ x) (''sessions/'' @ sid @ ''/'')"
proof
  assume "startsWith (''sessions/'' @ x) (''sessions/'' @ sid @ ''/'')"
  then have "prefix (sid @ ''/'') x" by (simp add: startsWith_def)
  then obtain z where "x = (sid @ ''/'') @ z" by (auto simp: prefix_def)
  then have "CHR ''/'' \<in> set x" by simp
  with assms show False by simp
qed

lemma sessionFiles_skip:
  "CHR ''/'' \<notin> set x \<Longrightarrow>
     sessionFiles (xs @ (''sessions/'' @ x) # ys) sid = sessionFiles (xs @ ys) sid"
  using not_in_session_folder[of x sid] by (simp add: sessionFiles_def)

lemma sweep_step_cong:
  assumes "sessionFiles f1 sid = sessionFiles f2 sid"
  shows "sweep_step f1 sid r w = sweep_step f2 sid r w"
  unfolding sweep_step_def sync_session_cong[OF assms] by (rule refl)

lemma sweep_loop_cong:
  "\<forall>sid. sessionFiles f1 sid = sessionFiles f2 sid \<Longrightarrow>
     sweep_loop f1 ids r w = sweep_loop f2 ids r w"
proof (induction ids arbitrary: r w)
  case Nil
  then show ?case by simp
next
  case (Cons sid ids)
  from Cons.prems have "sessionFiles f1 sid = sessionFiles f2 sid" by blast
  then have "sweep_step f1 sid r w = sweep_step f2 sid r w" by (rule sweep_step_cong)
  then show ?case using Cons.IH[OF Cons.prems] by (simp split: prod.splits)
qed

lemma tryon_entries_objects:
  "tryon_entries fs (w\<lparr>objects := obs\<rparr>) = with_objects obs (tryon_entries fs w)"
proof (induction fs arbitrary: w)
  case Nil
  then show ?case by (simp add: with_objects_def)
next
  case (Cons f fs)
  obtain e w1 where e: "tryon_of f w = (e, w1)" by (cases "tryon_of f w")
  obtain es w2 where es: "tryon_entries fs w1 = (es, w2)" by (cases "tryon_entries fs w1")
  show ?case
    using e es Cons.IH[of w1] by (simp add: tryon_of_objects with_objects_def)
qed

lemma synthesize_objects:
  "synthesize files sid (w\<lparr>objects := obs\<rparr>) = with_objects obs (synthesize files sid w)"
  by (simp add: synthesize_def Date_now_def with_objects_def tryon_entries_objects
        objects_outward Let_def split: prod.splits)

lemma sync_session_objects:
  "sync_session files sid (w\<lparr>objects := obs\<rparr>) = with_objects obs (sync_session files sid w)"
proof (cases "faults w (calls w)")
  case (Some m)
  then have "faults (w\<lparr>objects := obs\<rparr>) (calls (w\<lparr>objects := obs\<rparr>)) = Some m" by simp
  from sync_session_read_throws[OF this] sync_session_read_throws[OF Some]
  show ?thesis by (simp add: with_objects_def)
next
  case None
  then have n': "faults (w\<lparr>objects := obs\<rparr>) (calls (w\<lparr>objects := obs\<rparr>)) = None" by simp
  show ?thesis
  proof (cases "docs w sid")
    case (Some d)
    then have "docs (w\<lparr>objects := obs\<rparr>) sid = Some d" by simp
    from sync_session_exists[OF n' this] sync_session_exists[OF None Some]
    show ?thesis by (simp add: with_objects_def)
  next
    case dn: None
    then have dn': "docs (w\<lparr>objects := obs\<rparr>) sid = None" by simp
    obtain d w2 where syn: "synthesize files sid (w\<lparr>calls := Suc (calls w)\<rparr>) = (d, w2)"
      by (cases "synthesize files sid (w\<lparr>calls := Suc (calls w)\<rparr>)")
    have "synthesize files sid (w\<lparr>calls := Suc (calls w)\<rparr>\<lparr>objects := obs\<rparr>) =
            (d, w2\<lparr>objects := obs\<rparr>)"
      using syn by (simp only: synthesize_objects with_objects_def fst_conv snd_conv)
    then have syn': "synthesize files sid
                       (w\<lparr>objects := obs\<rparr>\<lparr>calls := Suc (calls (w\<lparr>objects := obs\<rparr>))\<rparr>) =
                     (d, w2\<lparr>objects := obs\<rparr>)"
      by (simp add: objects_outward)
    from sync_session_new[OF n' dn' syn'] sync_session_new[OF None dn syn]
    show ?thesis by (simp add: with_objects_def objects_outward split: option.splits)
  qed
qed

lemma sweep_step_objects:
  "sweep_step files sid r (w\<lparr>objects := obs\<rparr>) = with_objects obs (sweep_step files sid r w)"
  by (simp add: sweep_step_def sync_session_objects with_objects_def
        split: prod.splits sum.splits sync_outcome.splits)

lemma sweep_loop_objects:
  "sweep_loop files ids r (w\<lparr>objects := obs\<rparr>) = with_objects obs (sweep_loop files ids r w)"
proof (induction ids arbitrary: r w)
  case Nil
  then show ?case by (simp add: with_objects_def)
next
  case (Cons sid ids)
  obtain r1 w1 where st: "sweep_step files sid r w = (r1, w1)"
    by (cases "sweep_step files sid r w")
  then show ?case using Cons.IH[of r1 w1]
    by (simp add: sweep_step_objects with_objects_def)
qed

lemma status_loop_objects:
  "status_loop ids r (w\<lparr>objects := obs\<rparr>) = with_objects obs (status_loop ids r w)"
proof (induction ids arbitrary: r w)
  case Nil
  then show ?case by (simp add: with_objects_def)
next
  case (Cons sid ids)
  show ?case
  proof (cases "faults w (calls w)")
    case (Some m)
    then show ?thesis
      by (simp add: doc_exists_def external_call_def with_objects_def objects_outward)
  next
    case None
    then show ?thesis using Cons.IH
      by (cases "docs w sid") (simp_all add: doc_exists_def external_call_def objects_outward)
  qed
qed

lemma POST_same_sessions:
  assumes folders: "sessionFolders (listing (w\<lparr>objects := o1\<rparr>)) =
                    sessionFolders (listing (w\<lparr>objects := o2\<rparr>))"
    and files: "\<forall>sid. sessionFiles (listing (w\<lparr>objects := o1\<rparr>)) sid =
                      sessionFiles (listing (w\<lparr>objects := o2\<rparr>)) sid"
  shows "fst (POST (w\<lparr>objects := o1\<rparr>) req) = fst (POST (w\<lparr>objects := o2\<rparr>) req)
       \<and> docs (snd (POST (w\<lparr>objects := o1\<rparr>) req)) = docs (snd (POST (w\<lparr>objects := o2\<rparr>) req))"
proof (cases req)
  case (Body_null m)
  then show ?thesis by (simp add: POST_def)
next
  case (Body secret)
  let ?w1 = "w\<lparr>objects := o1\<rparr>" and ?w2 = "w\<lparr>objects := o2\<rparr>"
  show ?thesis
  proof (cases "authorised w secret")
    case False
    then show ?thesis using Body by (simp add: POST_def authorised_def)
  next
    case True
    then have a: "authorised ?w1 secret" "authorised ?w2 secret"
      by (simp_all add: authorised_def)
    show ?thesis
    proof (cases "faults w (calls w)")
      case (Some m)
      then show ?thesis using Body
        by (simp add: POST_def getFiles_def external_call_def)
    next
      case None
      then have f: "faults ?w1 (calls ?w1) = None" "faults ?w2 (calls ?w2) = None"
        by simp_all
      let ?ids = "sessionFolders (listing ?w2)"
      let ?r0 = "empty_tally (length ?ids)"
      let ?wc = "w\<lparr>calls := Suc (calls w)\<rparr>"
      obtain r w' where loop: "sweep_loop (listing ?w2) ?ids ?r0 ?wc = (r, w')"
        by (cases "sweep_loop (listing ?w2) ?ids ?r0 ?wc")
      have c1: "?w1\<lparr>calls := Suc (calls ?w1)\<rparr> = ?wc\<lparr>objects := o1\<rparr>"
        and c2: "?w2\<lparr>calls := Suc (calls ?w2)\<rparr> = ?wc\<lparr>objects := o2\<rparr>"
        by (simp_all add: objects_outward)
      have l2: "sweep_loop (listing ?w2) ?ids ?r0 (?w2\<lparr>calls := Suc (calls ?w2)\<rparr>) =
                  (r, w'\<lparr>objects := o2\<rparr>)"
        unfolding c2 sweep_loop_objects loop by (simp add: with_objects_def)
      have "sweep_loop (listing ?w1) ?ids ?r0 (?w1\<lparr>calls := Suc (calls ?w1)\<rparr>) =
              sweep_loop (listing ?w2) ?ids ?r0 (?w1\<lparr>calls := Suc (calls ?w1)\<rparr>)"
        by (rule sweep_loop_cong[OF files])
      then have l1: "sweep_loop (listing ?w1) ?ids ?r0 (?w1\<lparr>calls := Suc (calls ?w1)\<rparr>) =
                  (r, w'\<lparr>objects := o1\<rparr>)"
        unfolding c1 sweep_loop_objects loop by (simp add: with_objects_def)
      have p1: "POST ?w1 (Body secret) = (Response 200 (SweepBody r), w'\<lparr>objects := o1\<rparr>)"
        unfolding POST_sweeps[OF a(1) f(1)] folders l1 by simp
      have p2: "POST ?w2 (Body secret) = (Response 200 (SweepBody r), w'\<lparr>objects := o2\<rparr>)"
        unfolding POST_sweeps[OF a(2) f(2)] l2 by simp
      show ?thesis unfolding Body p1 p2 by simp
    qed
  qed
qed

lemma GET_lists:
  "faults w (calls w) = None \<Longrightarrow>
     GET w =
       (case status_loop (sessionFolders (listing w))
               \<lparr>dry_totalFolders = length (sessionFolders (listing w)), inFirestore = 0,
                missingFromFirestore = 0, missing = []\<rparr> (w\<lparr>calls := Suc (calls w)\<rparr>) of
          (Inl m, w2) \<Rightarrow> (internal_error m, w2)
        | (Inr r, w2) \<Rightarrow>
            (Response 200
               (StatusBody r
                  (nat_to_string (missingFromFirestore r) @
                   '' sessions in Storage are missing from Firestore. Use POST to sync them.'')),
             w2))"
  by (simp add: GET_def getFiles_ok)

lemma GET_same_sessions:
  assumes folders: "sessionFolders (listing (w\<lparr>objects := o1\<rparr>)) =
                    sessionFolders (listing (w\<lparr>objects := o2\<rparr>))"
  shows "fst (GET (w\<lparr>objects := o1\<rparr>)) = fst (GET (w\<lparr>objects := o2\<rparr>))"
proof (cases "faults w (calls w)")
  case (Some m)
  then show ?thesis by (simp add: GET_def getFiles_def external_call_def)
next
  case None
  let ?w1 = "w\<lparr>objects := o1\<rparr>" and ?w2 = "w\<lparr>objects := o2\<rparr>"
  let ?wc = "w\<lparr>calls := Suc (calls w)\<rparr>"
  let ?ids = "sessionFolders (listing ?w2)"
  let ?r0 = "\<lparr>dry_totalFolders = length ?ids, inFirestore = 0,
                missingFromFirestore = 0, missing = []\<rparr>"
  have f: "faults ?w1 (calls ?w1) = None" "faults ?w2 (calls ?w2) = None"
    using None by simp_all
  have c1: "?w1\<lparr>calls := Suc (calls ?w1)\<rparr> = ?wc\<lparr>objects := o1\<rparr>"
    and c2: "?w2\<lparr>calls := Suc (calls ?w2)\<rparr> = ?wc\<lparr>objects := o2\<rparr>"
    by (simp_all add: objects_outward)
  obtain res w' where loop: "status_loop ?ids ?r0 ?wc = (res, w')"
    by (cases "status_loop ?ids ?r0 ?wc")
  have g1: "status_loop ?ids ?r0 (?w1\<lparr>calls := Suc (calls ?w1)\<rparr>) = (res, w'\<lparr>objects := o1\<rparr>)"
    unfolding c1 status_loop_objects loop by (simp add: with_objects_def)
  have g2: "status_loop ?ids ?r0 (?w2\<lparr>calls := Suc (calls ?w2)\<rparr>) = (res, w'\<lparr>objects := o2\<rparr>)"
    unfolding c2 status_loop_objects loop by (simp add: with_objects_def)
  show ?thesis
    unfolding GET_lists[OF f(1)] GET_lists[OF f(2)] folders g1 g2
    by (cases res) simp_all
qed

text \<open>
  Claim C10. An object named \<^verbatim>\<open>sessions/<x>\<close> with no \<^verbatim>\<open>/\<close> in \<open>x\<close> matches no session
  folder, and the bucket with the object and the bucket without it give the same
  response of the write-mode sweep (so the same \<open>totalFolders\<close> and details), the same
  session documents after the sweep, and the same response of the dry run.
\<close>

theorem file_under_prefix_ignored:
  assumes "CHR ''/'' \<notin> set x" and "obj_name ob = ''sessions/'' @ x"
  shows "session_match (obj_name ob) = None
       \<and> fst (POST (w\<lparr>objects := xs @ ob # ys\<rparr>) req) = fst (POST (w\<lparr>objects := xs @ ys\<rparr>) req)
       \<and> docs (snd (POST (w\<lparr>objects := xs @ ob # ys\<rparr>) req)) =
           docs (snd (POST (w\<lparr>objects := xs @ ys\<rparr>) req))
       \<and> fst (GET (w\<lparr>objects := xs @ ob # ys\<rparr>)) = fst (GET (w\<lparr>objects := xs @ ys\<rparr>))"
proof -
  let ?P = "\<lambda>n. startsWith n ''sessions/''"
  let ?L1 = "filter ?P (map obj_name xs)" and ?L2 = "filter ?P (map obj_name ys)"
  have m: "session_match (obj_name ob) = None"
    using session_match_no_folder[OF assms(1)] assms(2) by simp
  have la: "listing (w\<lparr>objects := xs @ ob # ys\<rparr>) = ?L1 @ (''sessions/'' @ x) # ?L2"
    using assms(2) by (simp add: listing_def object_names_def startsWith_def)
  have lb: "listing (w\<lparr>objects := xs @ ys\<rparr>) = ?L1 @ ?L2"
    by (simp add: listing_def object_names_def)
  have folders: "sessionFolders (listing (w\<lparr>objects := xs @ ob # ys\<rparr>)) =
                 sessionFolders (listing (w\<lparr>objects := xs @ ys\<rparr>))"
    unfolding la lb sessionFolders_def
    by (rule collect_folders_skip[OF session_match_no_folder[OF assms(1)]])
  have files: "\<forall>sid. sessionFiles (listing (w\<lparr>objects := xs @ ob # ys\<rparr>)) sid =
                     sessionFiles (listing (w\<lparr>objects := xs @ ys\<rparr>)) sid"
    unfolding la lb using sessionFiles_skip[OF assms(1)] by blast
  from m POST_same_sessions[OF folders files, of req] GET_same_sessions[OF folders]
  show ?thesis by simp
qed

theorem file_under_prefix_ignored_witness:
  "session_match (obj_name (object_named ''sessions/readme.txt'')) = None
   \<and> fst (POST (sweep_world\<lparr>objects := [object_named ''sessions/a/original.jpg'']
                     @ object_named ''sessions/readme.txt''
                     # [object_named ''sessions/b/original.jpg'']\<rparr>) (Body None)) =
       fst (POST (sweep_world\<lparr>objects := [object_named ''sessions/a/original.jpg'']
                     @ [object_named ''sessions/b/original.jpg'']\<rparr>) (Body None))
   \<and> docs (snd (POST (sweep_world\<lparr>objects := [object_named ''sessions/a/original.jpg'']
                     @ object_named ''sessions/readme.txt''
                     # [object_named ''sessions/b/original.jpg'']\<rparr>) (Body None))) =
       docs (snd (POST (sweep_world\<lparr>objects := [object_named ''sessions/a/original.jpg'']
                     @ [object_named ''sessions/b/original.jpg'']\<rparr>) (Body None)))
   \<and> fst (GET (sweep_world\<lparr>objects := [object_named ''sessions/a/original.jpg'']
                     @ object_named ''sessions/readme.txt''
                     # [object_named ''sessions/b/original.jpg'']\<rparr>)) =
       fst (GET (sweep_world\<lparr>objects := [object_named ''sessions/a/original.jpg'']
                     @ [object_named ''sessions/b/original.jpg'']\<rparr>))"
  by (rule file_under_prefix_ignored[of "''readme.txt''"]) (simp_all add: object_named_def)

text \<open>The dry run of a bucket that holds such a file: two folders.\<close>

lemma file_under_prefix_not_counted:
  "fst (GET (sweep_world\<lparr>objects := [object_named ''sessions/a/original.jpg'',
                                        object_named ''sessions/readme.txt'',
                                        object_named ''sessions/b/original.jpg'']\<rparr>)) =
     Response 200 (StatusBody
       \<lparr>dry_totalFolders = 2, inFirestore = 0, missingFromFirestore = 2,
        missing = [''a'', ''b'']\<rparr>
       ''2 sessions in Storage are missing from Firestore. Use POST to sync them.'')"
  by (simp add: GET_def sweep_world_def eval_defs)

text \<open>Integers up to \<open>2 ^ 53\<close> are Number values; a string of digits parses to the Number
  value of the integer it denotes.\<close>

lemma to_number_exact:
  assumes "n \<le> 2 ^ 53"
  shows "to_number n = Num (int n)"
proof (cases "n < 2 ^ 53")
  case True
  then show ?thesis by (simp add: to_number_def)
next
  case False
  with assms have n: "n = 9007199254740992" by simp
  show ?thesis unfolding n by (simp add: to_number_def Let_def)
qed

lemma parseInt_digits:
  assumes "all_digits s"
  shows "parseInt s = to_number (decimal_value s)"
proof -
  have tw: "takeWhile is_digit s = s"
    using assms by (simp add: all_digits_def list_all_iff takeWhile_eq_all_conv)
  have ne: "s \<noteq> []" using assms by (simp add: all_digits_def)
  show ?thesis
    unfolding parseInt_def Let_def tw using ne by simp
qed

lemma synthesize_createdAt:
  "createdAt (fst (synthesize files sid w)) =
     (if all_digits sid then parseInt sid else Num (clock w (ticks w)))"
  by (simp add: synthesize_def Date_now_def Let_def split: prod.splits)

lemma sync_session_created:
  assumes "sync_session files sid w = (Inr Created, w')"
  shows "faults w (calls w) = None \<and> docs w sid = None \<and> faults w (Suc (calls w)) = None
       \<and> docs w' sid = Some (fst (synthesize files sid (w\<lparr>calls := Suc (calls w)\<rparr>)))
       \<and> ticks w' = ticks (snd (synthesize files sid (w\<lparr>calls := Suc (calls w)\<rparr>)))"
proof -
  have f: "faults w (calls w) = None"
  proof (cases "faults w (calls w)")
    case (Some m)
    from sync_session_read_throws[OF Some, of files sid] assms show ?thesis by simp
  qed simp
  have d: "docs w sid = None"
  proof (cases "docs w sid")
    case (Some d)
    from sync_session_exists[OF f Some, of files] assms show ?thesis by simp
  qed simp
  obtain doc w2 where syn: "synthesize files sid (w\<lparr>calls := Suc (calls w)\<rparr>) = (doc, w2)"
    by (cases "synthesize files sid (w\<lparr>calls := Suc (calls w)\<rparr>)")
  from sync_session_new[OF f d syn] assms f d syn show ?thesis
    by (auto split: option.splits)
qed

text \<open>
  Claim C3, as amended. For every identifier for which the sweep creates a record: when
  the identifier consists entirely of digits, \<open>createdAt\<close> is the Number value of the
  integer the digits denote (the nearest double), which is that integer itself whenever
  it is at most \<open>2 ^ 53\<close>; otherwise \<open>createdAt\<close> is the reading of the clock that the
  synthesis takes first.
\<close>

theorem createdAt_rule:
  assumes "sync_session files sid w = (Inr Created, w')"
  shows "\<exists>d. docs w' sid = Some d
           \<and> (all_digits sid \<longrightarrow> createdAt d = to_number (decimal_value sid))
           \<and> (all_digits sid \<and> decimal_value sid \<le> 2 ^ 53 \<longrightarrow>
                createdAt d = Num (int (decimal_value sid)))
           \<and> (\<not> all_digits sid \<longrightarrow> createdAt d = Num (clock w (ticks w)))"
proof -
  let ?d = "fst (synthesize files sid (w\<lparr>calls := Suc (calls w)\<rparr>))"
  from sync_session_created[OF assms] have s: "docs w' sid = Some ?d" by simp
  have c: "createdAt ?d = (if all_digits sid then parseInt sid else Num (clock w (ticks w)))"
    by (simp add: synthesize_createdAt)
  have "docs w' sid = Some ?d
           \<and> (all_digits sid \<longrightarrow> createdAt ?d = to_number (decimal_value sid))
           \<and> (all_digits sid \<and> decimal_value sid \<le> 2 ^ 53 \<longrightarrow>
                createdAt ?d = Num (int (decimal_value sid)))
           \<and> (\<not> all_digits sid \<longrightarrow> createdAt ?d = Num (clock w (ticks w)))"
    using s c by (simp add: parseInt_digits to_number_exact)
  then show ?thesis by (intro exI)
qed

text \<open>The equations that evaluate \<^verbatim>\<open>parseInt\<close> on a concrete string.\<close>

lemmas number_defs = parseInt_def to_number_def decimal_value_def digit_val_def

theorem createdAt_rule_witness:
  "\<exists>d. docs (snd (sync_session (listing sweep_world) ''1700000000000'' sweep_world))
          ''1700000000000'' = Some d
       \<and> createdAt d = Num 1700000000000"
proof -
  let ?w' = "snd (sync_session (listing sweep_world) ''1700000000000'' sweep_world)"
  have "fst (sync_session (listing sweep_world) ''1700000000000'' sweep_world) = Inr Created"
    by (simp add: sweep_world_listing) (simp add: sweep_world_def eval_defs number_defs)
  then have h: "sync_session (listing sweep_world) ''1700000000000'' sweep_world = (Inr Created, ?w')"
    by (metis prod.collapse)
  have a: "all_digits ''1700000000000''" by (simp add: all_digits_def is_digit_def)
  have v: "decimal_value ''1700000000000'' = 1700000000000"
    by (simp add: decimal_value_def digit_val_def)
  from createdAt_rule[OF h] obtain d where
    "docs ?w' ''1700000000000'' = Some d"
    "all_digits ''1700000000000'' \<and> decimal_value ''1700000000000'' \<le> 2 ^ 53 \<longrightarrow>
       createdAt d = Num (int (decimal_value ''1700000000000''))"
    by blast
  then have "docs ?w' ''1700000000000'' = Some d \<and> createdAt d = Num 1700000000000"
    using a v by simp
  then show ?thesis by (intro exI)
qed

text \<open>
  Claim C3 as stated fails for the identifier \<^verbatim>\<open>9007199254740993\<close>: it consists entirely
  of digits, the sweep creates its record, and \<open>createdAt\<close> is 9007199254740992, not the
  integer value of the identifier.
\<close>

theorem createdAt_rounded_counterexample:
  "all_digits ''9007199254740993''
   \<and> int (decimal_value ''9007199254740993'') = 9007199254740993
   \<and> fst (POST big_id_world (Body None)) =
       Response 200 (SweepBody
         \<lparr>totalFolders = 1, alreadySynced = 0, newlyCreated = 1, failed = 0,
          details = [\<lparr>sessionId = ''9007199254740993'', status = ''created'', error = None\<rparr>]\<rparr>)
   \<and> map_option createdAt (docs (snd (POST big_id_world (Body None))) ''9007199254740993'') =
       Some (Num 9007199254740992)"
  by (simp add: big_id_world_def eval_defs number_defs)

text \<open>For the identifier \<^verbatim>\<open>a\<close> the two timestamps are successive readings of the clock.\<close>

lemma createdAt_of_other_identifier:
  "map_option createdAt (docs (snd (POST sweep_world (Body None))) ''a'') =
     Some (Num 1700000000000)
   \<and> map_option syncedAt (docs (snd (POST sweep_world (Body None))) ''a'') =
     Some (Num 1700000000001)"
  by (simp add: sweep_world_def eval_defs number_defs)

text \<open>
  Claim C4 at the bucket whose only object is \<^verbatim>\<open>sessions/s1/sub/original.jpg\<close>: the record
  of \<^verbatim>\<open>s1\<close> carries the URL of \<^verbatim>\<open>sessions/s1/original.jpg\<close>, an object that does not
  exist, where the claim requires \<open>originalImageUrl\<close> to be null.
\<close>

theorem nested_original_url:
  "map_option originalImageUrl (docs (snd (POST nested_world (Body None))) ''s1'') =
     Some (Some ''https://storage.googleapis.com/melaleuca-mirror.firebasestorage.app/sessions/s1/original.jpg'')
   \<and> ''sessions/s1/original.jpg'' \<notin> set (object_names nested_world)
   \<and> object_names nested_world = [''sessions/s1/sub/original.jpg'']"
  by (simp add: nested_world_def object_names_def eval_defs number_defs)

text \<open>What the source tests: the last path segment of some object under the session's
  prefix, at any depth.\<close>

lemma named_in_session:
  "n \<in> split_pop ` set (sessionFiles files sid) \<longleftrightarrow>
     (\<exists>f\<in>set files. startsWith f (''sessions/'' @ sid @ ''/'') \<and> split_pop f = n)"
  unfolding sessionFiles_def by auto

lemma synthesize_originalImageUrl:
  "originalImageUrl (fst (synthesize files sid w)) =
     (if \<exists>f\<in>set files. startsWith f (''sessions/'' @ sid @ ''/'') \<and> split_pop f = ''original.jpg''
      then Some (public_url (''sessions/'' @ sid @ ''/original.jpg'')) else None)"
  unfolding named_in_session[symmetric]
  by (simp add: synthesize_def Let_def split: prod.splits)

lemma synthesize_derenderedImageUrl:
  "derenderedImageUrl (fst (synthesize files sid w)) =
     (if \<exists>f\<in>set files. startsWith f (''sessions/'' @ sid @ ''/'') \<and> split_pop f = ''derendered.jpg''
      then Some (public_url (''sessions/'' @ sid @ ''/derendered.jpg'')) else None)"
  unfolding named_in_session[symmetric]
  by (simp add: synthesize_def Let_def split: prod.splits)

text \<open>The expression tried at one position succeeds exactly on the pattern.\<close>

lemma foundation_match_here_Some_iff:
  "foundation_match_here s = Some (k, ds) \<longleftrightarrow>
     k \<noteq> [] \<and> CHR ''-'' \<notin> set k \<and> all_digits ds \<and>
     (\<exists>post. s = ''foundation-'' @ k @ ''-'' @ ds @ ''.jpg'' @ post)"
proof
  assume h: "foundation_match_here s = Some (k, ds)"
  then have "prefix ''foundation-'' s"
    by (simp add: foundation_match_here_def startsWith_def split: if_splits)
  then obtain r1 where s: "s = ''foundation-'' @ r1" by (auto simp: prefix_def)
  let ?nh = "\<lambda>c. c \<noteq> CHR ''-''"
  from h s have k: "takeWhile ?nh r1 = k" and kne: "k \<noteq> []"
    and r2ne: "dropWhile ?nh r1 \<noteq> []"
    by (auto simp: foundation_match_here_def startsWith_def Let_def split: if_splits)
  from r2ne obtain z r3 where r2: "dropWhile ?nh r1 = z # r3"
    by (cases "dropWhile ?nh r1") auto
  from takeWhile_dropWhile_split[OF k r2]
  have r1: "r1 = k @ z # r3" and z: "z = CHR ''-''" and nk: "CHR ''-'' \<notin> set k" by auto
  from h s r2 kne k have ds: "takeWhile is_digit r3 = ds" and dsne: "ds \<noteq> []"
    and p4: "prefix ''.jpg'' (dropWhile is_digit r3)"
    by (auto simp: foundation_match_here_def startsWith_def Let_def split: if_splits)
  from p4 obtain post where r4: "dropWhile is_digit r3 = ''.jpg'' @ post"
    by (auto simp: prefix_def)
  have "r3 = takeWhile is_digit r3 @ dropWhile is_digit r3" by simp
  then have r3: "r3 = ds @ ''.jpg'' @ post" unfolding ds r4 .
  have "list_all is_digit ds"
    unfolding ds[symmetric] by (simp add: list_all_iff) (meson set_takeWhileD)
  with dsne have "all_digits ds" by (simp add: all_digits_def)
  moreover have "s = ''foundation-'' @ k @ ''-'' @ ds @ ''.jpg'' @ post"
    unfolding s r1 z r3 by simp
  ultimately show "k \<noteq> [] \<and> CHR ''-'' \<notin> set k \<and> all_digits ds \<and>
     (\<exists>post. s = ''foundation-'' @ k @ ''-'' @ ds @ ''.jpg'' @ post)"
    using kne nk by blast
next
  assume "k \<noteq> [] \<and> CHR ''-'' \<notin> set k \<and> all_digits ds \<and>
     (\<exists>post. s = ''foundation-'' @ k @ ''-'' @ ds @ ''.jpg'' @ post)"
  then obtain post where kne: "k \<noteq> []" and nk: "CHR ''-'' \<notin> set k" and ad: "all_digits ds"
    and s: "s = ''foundation-'' @ k @ ''-'' @ ds @ ''.jpg'' @ post" by blast
  let ?nh = "\<lambda>c. c \<noteq> CHR ''-''"
  let ?r3 = "ds @ ''.jpg'' @ post"
  have dig: "\<forall>c\<in>set ds. is_digit c" and dsne: "ds \<noteq> []"
    using ad by (simp_all add: all_digits_def list_all_iff)
  have t1: "takeWhile ?nh (k @ CHR ''-'' # ?r3) = k"
    using nk by (subst takeWhile_append2) auto
  have d1: "dropWhile ?nh (k @ CHR ''-'' # ?r3) = CHR ''-'' # ?r3"
    using nk by (subst dropWhile_append2) auto
  have nd: "\<not> is_digit CHR ''.''" by (simp add: is_digit_def)
  have t2: "takeWhile is_digit (ds @ CHR ''.'' # ''jpg'' @ post) = ds"
    using dig nd by (subst takeWhile_append2) auto
  have d2: "dropWhile is_digit (ds @ CHR ''.'' # ''jpg'' @ post) = CHR ''.'' # ''jpg'' @ post"
    using dig nd by (subst dropWhile_append2) auto
  have dr: "drop 11 s = k @ CHR ''-'' # ?r3" unfolding s by simp
  have pf: "startsWith s ''foundation-''" unfolding s by (simp add: startsWith_def)
  show "foundation_match_here s = Some (k, ds)"
    unfolding foundation_match_here_def Let_def dr t1 d1
    using pf kne dsne t2 d2 by (simp add: startsWith_def)
qed

lemma foundation_match_None_iff:
  "foundation_match s = None \<longleftrightarrow> (\<forall>pre rest. s = pre @ rest \<longrightarrow> foundation_match_here rest = None)"
proof (induction s)
  case Nil
  then show ?case by (simp split: option.splits)
next
  case (Cons c cs)
  have "(\<forall>pre rest. c # cs = pre @ rest \<longrightarrow> foundation_match_here rest = None) \<longleftrightarrow>
        foundation_match_here (c # cs) = None
        \<and> (\<forall>pre rest. cs = pre @ rest \<longrightarrow> foundation_match_here rest = None)"
    by (auto simp: Cons_eq_append_conv)
  with Cons.IH show ?case by (auto split: option.splits)
qed

lemma foundation_match_Some:
  "foundation_match s = Some m \<Longrightarrow> \<exists>pre rest. s = pre @ rest \<and> foundation_match_here rest = Some m"
proof (induction s)
  case Nil
  then show ?case by (auto split: option.splits)
next
  case (Cons c cs)
  show ?case
  proof (cases "foundation_match_here (c # cs)")
    case (Some m')
    with Cons.prems have "m' = m" by simp
    with Some have "c # cs = [] @ (c # cs) \<and> foundation_match_here (c # cs) = Some m" by simp
    then show ?thesis by blast
  next
    case None
    with Cons.prems have "foundation_match cs = Some m" by simp
    from Cons.IH[OF this] obtain pre rest where "cs = pre @ rest"
      "foundation_match_here rest = Some m" by blast
    then have "c # cs = (c # pre) @ rest \<and> foundation_match_here rest = Some m" by simp
    then show ?thesis by blast
  qed
qed

text \<open>Each file gives one entry; only an entry for a name that does not match reads the
  clock.\<close>

lemma tryon_of_spec:
  assumes "tryon_of f w = (e, w')"
  shows "imageUrl e = public_url f
       \<and> (case foundation_match (split_pop f) of
            Some (k, ds) \<Rightarrow> sku e = k \<and> timestamp e = parseInt ds
          | None \<Rightarrow> sku e = ''unknown'' \<and> timestamp e = Num (clock w (ticks w))
                    \<and> ticks w < ticks w')"
  using assms
  by (auto simp: tryon_of_def Date_now_def Let_def split: option.splits prod.splits)

lemma tryon_entries_spec:
  "tryon_entries fs w = (es, w') \<Longrightarrow>
     list_all2 (\<lambda>f e. imageUrl e = public_url f
        \<and> (case foundation_match (split_pop f) of
             Some (k, ds) \<Rightarrow> sku e = k \<and> timestamp e = parseInt ds
           | None \<Rightarrow> sku e = ''unknown''
                     \<and> (\<exists>j. ticks w \<le> j \<and> j < ticks w' \<and> timestamp e = Num (clock w j))))
       fs es"
proof (induction fs arbitrary: w es w')
  case Nil
  then show ?case by simp
next
  case (Cons f fs)
  obtain e w1 where e: "tryon_of f w = (e, w1)" by (cases "tryon_of f w")
  obtain es1 w2 where es: "tryon_entries fs w1 = (es1, w2)" by (cases "tryon_entries fs w1")
  from Cons.prems e es have res: "es = e # es1" "w' = w2" by simp_all
  from tryon_of_frame[OF e] have f1: "w1 = w\<lparr>ticks := ticks w1\<rparr>" and t1: "ticks w \<le> ticks w1"
    by simp_all
  have c1: "clock w1 = clock w" by (subst f1) simp
  from tryon_entries_frame[OF es] have t2: "ticks w1 \<le> ticks w2" by simp
  let ?P = "\<lambda>w f e. imageUrl e = public_url f
        \<and> (case foundation_match (split_pop f) of
             Some (k, ds) \<Rightarrow> sku e = k \<and> timestamp e = parseInt ds
           | None \<Rightarrow> sku e = ''unknown''
                     \<and> (\<exists>j. ticks w \<le> j \<and> j < ticks w2 \<and> timestamp e = Num (clock w j)))"
  have tl: "list_all2 (?P w1) fs es1" using Cons.IH[OF es] .
  have "list_all2 (?P w) fs es1"
  proof (rule list_all2_mono[OF tl])
    fix g x assume "?P w1 g x"
    then show "?P w g x"
      using t1 c1 by (auto split: option.splits intro: le_trans)
  qed
  moreover have "?P w f e"
    using tryon_of_spec[OF e] t2 by (auto split: option.splits)
  ultimately show ?case unfolding res by simp
qed

lemma synthesize_tryons:
  assumes "synthesize files sid w = (d, w')"
  shows "\<exists>wa. ticks w \<le> ticks wa \<and> clock wa = clock w
              \<and> tryon_entries (foundationFiles files sid) wa = (foundationTryons d, w')"
proof -
  obtain c w1 where c: "(if all_digits sid then (parseInt sid, w) else Date_now w) = (c, w1)"
    by (cases "if all_digits sid then (parseInt sid, w) else Date_now w")
  then have a: "ticks w \<le> ticks w1" "clock w1 = clock w"
    by (auto simp: Date_now_def split: if_splits)
  obtain s w2 where s: "Date_now w1 = (s, w2)" by (cases "Date_now w1")
  then have b: "ticks w1 \<le> ticks w2" "clock w2 = clock w1" by (auto simp: Date_now_def)
  let ?ff = "foundationFiles files sid"
  obtain ts w3 where t: "tryon_entries ?ff w2 = (ts, w3)" by (cases "tryon_entries ?ff w2")
  have t': "(if ?ff \<noteq> [] then tryon_entries ?ff w2 else ([], w2)) = (ts, w3)"
    using t by (cases "?ff = []") simp_all
  have "foundationTryons (fst (synthesize files sid w)) = ts \<and> snd (synthesize files sid w) = w3"
    by (simp add: synthesize_def Let_def c s t')
  with assms have "foundationTryons d = ts" "w' = w3" by simp_all
  with t a b have "ticks w \<le> ticks w2 \<and> clock w2 = clock w
              \<and> tryon_entries ?ff w2 = (foundationTryons d, w')" by simp
  then show ?thesis by blast
qed

text \<open>The filters of the source select exactly the files of the specification.\<close>

lemma tryon_file_iff:
  "tryon_file sid n \<longleftrightarrow>
     startsWith n (''sessions/'' @ sid @ ''/'') \<and> str_includes n ''foundation-''
     \<and> endsWith n ''.jpg''"
  unfolding startsWith_def str_includes_def endsWith_def tryon_file_def
    prefix_def sublist_def suffix_def
  by simp

lemma foundationFiles_spec: "foundationFiles files sid = filter (tryon_file sid) files"
  unfolding foundationFiles_def sessionFiles_def filter_filter tryon_file_iff
  by (simp add: conj_commute cong: filter_cong)

text \<open>The expression tried at position \<open>i\<close> succeeds exactly on an occurrence at \<open>i\<close>.\<close>

lemma occurs_at_iff: "occurs_at s i k ds \<longleftrightarrow> foundation_match_here (drop i s) = Some (k, ds)"
  unfolding occurs_at_def foundation_match_here_Some_iff by (rule refl)

lemma foundation_match_first:
  "foundation_match s = Some m \<Longrightarrow>
     \<exists>i. foundation_match_here (drop i s) = Some m
         \<and> (\<forall>j<i. foundation_match_here (drop j s) = None)"
proof (induction s)
  case Nil
  then have "foundation_match_here (drop 0 []) = Some m" by (simp split: option.splits)
  then show ?case by blast
next
  case (Cons c cs)
  show ?case
  proof (cases "foundation_match_here (c # cs)")
    case (Some m')
    with Cons.prems have "m' = m" by simp
    with Some have "foundation_match_here (drop 0 (c # cs)) = Some m
                    \<and> (\<forall>j<0. foundation_match_here (drop j (c # cs)) = None)" by simp
    then show ?thesis by blast
  next
    case None
    with Cons.prems have "foundation_match cs = Some m" by simp
    from Cons.IH[OF this] obtain i where
      i: "foundation_match_here (drop i cs) = Some m"
         "\<forall>j<i. foundation_match_here (drop j cs) = None" by blast
    have "\<forall>j<Suc i. foundation_match_here (drop j (c # cs)) = None"
    proof (intro allI impI)
      fix j assume "j < Suc i"
      then show "foundation_match_here (drop j (c # cs)) = None"
        using None i(2) by (cases j) simp_all
    qed
    with i(1) have "foundation_match_here (drop (Suc i) (c # cs)) = Some m
                    \<and> (\<forall>j<Suc i. foundation_match_here (drop j (c # cs)) = None)" by simp
    then show ?thesis by blast
  qed
qed

lemma foundation_match_none:
  "foundation_match s = None \<Longrightarrow> foundation_match_here (drop i s) = None"
  unfolding foundation_match_None_iff
  by (metis append_take_drop_id)

text \<open>The unanchored expression returns the first occurrence of the pattern, and nothing
  exactly when the pattern occurs nowhere.\<close>

lemma foundation_match_first_occurrence:
  "foundation_match s = Some (k, ds) \<Longrightarrow> first_occurrence s k ds"
  unfolding first_occurrence_def occurs_at_iff
  by (drule foundation_match_first) auto

lemma foundation_match_absent:
  "foundation_match s = None \<Longrightarrow> \<not> occurs_at s i k ds"
  unfolding occurs_at_iff by (simp add: foundation_match_none)

lemma first_occurrence_unique:
  assumes "first_occurrence s k ds" and "first_occurrence s k' ds'"
  shows "k = k' \<and> ds = ds'"
proof -
  from assms(1) obtain i where i: "occurs_at s i k ds"
    "\<forall>j<i. \<forall>a b. \<not> occurs_at s j a b"
    unfolding first_occurrence_def by blast
  from assms(2) obtain i' where i': "occurs_at s i' k' ds'"
    "\<forall>j<i'. \<forall>a b. \<not> occurs_at s j a b"
    unfolding first_occurrence_def by blast
  have "\<not> i < i'" using i(1) i'(2) by blast
  moreover have "\<not> i' < i" using i'(1) i(2) by blast
  ultimately have "i = i'" by simp
  with i(1) i'(1) show ?thesis unfolding occurs_at_iff by simp
qed

lemma whole_name_first_occurrence:
  assumes "whole_name s k ds"
  shows "first_occurrence s k ds"
proof -
  from assms have "occurs_at s 0 k ds"
    unfolding whole_name_def occurs_at_def by simp
  then show ?thesis unfolding first_occurrence_def by (intro exI[of _ 0]) simp
qed

text \<open>
  Claim C5, as amended. Whenever the document store answers (the read succeeds and finds
  no record, the write succeeds), the sweep creates the record of the session, whatever
  the file names, and its \<open>foundationTryons\<close> has exactly one entry for each object under
  the session's path whose name contains \<^verbatim>\<open>foundation-\<close> and ends in \<^verbatim>\<open>.jpg\<close>, in the order
  of the listing, with the public URL of the object. For the last path segment of the
  name: when the form \<^verbatim>\<open>foundation-<sku>-<digits>.jpg\<close> occurs in it, the entry carries the
  sku of the first occurrence and the Number value of its digits; when the form occurs
  nowhere in it, the entry carries \<^verbatim>\<open>'unknown'\<close> and a reading of the clock taken during
  the synthesis of this record. In particular, when the whole segment has the form, the
  entry carries its sku and the Number value of its digits.
\<close>

theorem foundation_entries:
  assumes "faults w (calls w) = None" and "docs w sid = None"
    and "faults w (Suc (calls w)) = None"
  shows "\<exists>d w'. sync_session files sid w = (Inr Created, w') \<and> docs w' sid = Some d
           \<and> list_all2 (\<lambda>f e. imageUrl e = public_url f
                \<and> ((\<exists>k ds. first_occurrence (split_pop f) k ds \<and> sku e = k
                              \<and> timestamp e = to_number (decimal_value ds))
                   \<or> ((\<forall>i k ds. \<not> occurs_at (split_pop f) i k ds) \<and> sku e = ''unknown''
                       \<and> (\<exists>j. ticks w \<le> j \<and> j < ticks w' \<and> timestamp e = Num (clock w j))))
                \<and> (\<forall>k ds. whole_name (split_pop f) k ds \<longrightarrow>
                       sku e = k \<and> timestamp e = to_number (decimal_value ds)))
               (filter (tryon_file sid) files) (foundationTryons d)"
proof -
  let ?wc = "w\<lparr>calls := Suc (calls w)\<rparr>"
  obtain d w2 where syn: "synthesize files sid ?wc = (d, w2)"
    by (cases "synthesize files sid ?wc")
  let ?w' = "w2\<lparr>calls := Suc (Suc (calls w)), docs := (docs w)(sid \<mapsto> d)\<rparr>"
  have ss: "sync_session files sid w = (Inr Created, ?w')"
    using sync_session_new[OF assms(1,2) syn] assms(3) by simp
  from synthesize_tryons[OF syn] obtain wa where
    wa: "ticks w \<le> ticks wa" "clock wa = clock w"
    and te: "tryon_entries (foundationFiles files sid) wa = (foundationTryons d, w2)"
    by auto
  let ?Q = "\<lambda>f e. imageUrl e = public_url f
                \<and> ((\<exists>k ds. first_occurrence (split_pop f) k ds \<and> sku e = k
                              \<and> timestamp e = to_number (decimal_value ds))
                   \<or> ((\<forall>i k ds. \<not> occurs_at (split_pop f) i k ds) \<and> sku e = ''unknown''
                       \<and> (\<exists>j. ticks w \<le> j \<and> j < ticks ?w' \<and> timestamp e = Num (clock w j))))
                \<and> (\<forall>k ds. whole_name (split_pop f) k ds \<longrightarrow>
                       sku e = k \<and> timestamp e = to_number (decimal_value ds))"
  have "list_all2 ?Q (foundationFiles files sid) (foundationTryons d)"
  proof (rule list_all2_mono[OF tryon_entries_spec[OF te]])
    fix f e
    assume h: "imageUrl e = public_url f
        \<and> (case foundation_match (split_pop f) of
             Some (k, ds) \<Rightarrow> sku e = k \<and> timestamp e = parseInt ds
           | None \<Rightarrow> sku e = ''unknown''
                     \<and> (\<exists>j. ticks wa \<le> j \<and> j < ticks w2 \<and> timestamp e = Num (clock wa j)))"
    show "?Q f e"
    proof (cases "foundation_match (split_pop f)")
      case None
      with h obtain j where "ticks wa \<le> j" "j < ticks w2" "timestamp e = Num (clock wa j)"
        and u: "sku e = ''unknown''" by auto
      with wa have "ticks w \<le> j \<and> j < ticks ?w' \<and> timestamp e = Num (clock w j)" by simp
      then have r: "\<exists>j. ticks w \<le> j \<and> j < ticks ?w' \<and> timestamp e = Num (clock w j)" by blast
      have ab: "\<forall>i k ds. \<not> occurs_at (split_pop f) i k ds"
        using foundation_match_absent[OF None] by blast
      then have nw: "\<forall>k ds. \<not> whole_name (split_pop f) k ds"
        using whole_name_first_occurrence unfolding first_occurrence_def by blast
      from h u r ab nw show ?thesis by blast
    next
      case (Some m)
      obtain k ds where m: "m = (k, ds)" by (cases m)
      from Some m have fo: "first_occurrence (split_pop f) k ds"
        by (simp add: foundation_match_first_occurrence)
      then have "all_digits ds" unfolding first_occurrence_def occurs_at_def by blast
      then have p: "parseInt ds = to_number (decimal_value ds)" by (rule parseInt_digits)
      from h Some m p have v: "sku e = k" "timestamp e = to_number (decimal_value ds)"
        by simp_all
      have wn: "\<forall>k' ds'. whole_name (split_pop f) k' ds' \<longrightarrow>
                 sku e = k' \<and> timestamp e = to_number (decimal_value ds')"
        using first_occurrence_unique[OF fo] whole_name_first_occurrence v by blast
      from h fo v wn show ?thesis by blast
    qed
  qed
  with ss have "sync_session files sid w = (Inr Created, ?w') \<and> docs ?w' sid = Some d
           \<and> list_all2 ?Q (filter (tryon_file sid) files) (foundationTryons d)"
    by (simp add: foundationFiles_spec)
  then show ?thesis by blast
qed

theorem foundation_entries_witness:
  "\<exists>d w'. sync_session (listing tryon_world) ''s1'' tryon_world = (Inr Created, w')
          \<and> docs w' ''s1'' = Some d
          \<and> map sku (foundationTryons d) = [''SKU42'', ''unknown'']
          \<and> timestamp (hd (foundationTryons d)) = Num 1690000000000"
proof -
  let ?f1 = "''sessions/s1/foundation-SKU42-1690000000000.jpg''"
  let ?f3 = "''sessions/s1/foundation-badname.jpg''"
  have h1: "faults tryon_world (calls tryon_world) = None"
    and h2: "docs tryon_world ''s1'' = None"
    and h3: "faults tryon_world (Suc (calls tryon_world)) = None"
    by (simp_all add: tryon_world_def example_world_def no_faults_def)
  have "foundationFiles (listing tryon_world) ''s1'' = [?f1, ?f3]"
    by (simp add: foundationFiles_def sessionFiles_def listing_def object_names_def
          tryon_world_def example_world_def object_named_def startsWith_def str_includes_def
          endsWith_def sublist_Cons_right suffix_to_prefix)
  then have ff: "filter (tryon_file ''s1'') (listing tryon_world) = [?f1, ?f3]"
    by (simp only: foundationFiles_spec)
  have w1: "whole_name (split_pop ?f1) ''SKU42'' ''1690000000000''"
    by (simp add: whole_name_def split_pop_def all_digits_def is_digit_def)
  have v: "to_number (decimal_value ''1690000000000'') = Num 1690000000000"
    by (simp add: to_number_def decimal_value_def digit_val_def)
  have "foundation_match (split_pop ?f3) = None"
    by (simp add: split_pop_def foundation_match_here_def startsWith_def is_digit_def)
  then have n3: "\<And>k ds. \<not> first_occurrence (split_pop ?f3) k ds"
    unfolding first_occurrence_def using foundation_match_absent by blast
  from foundation_entries[OF h1 h2 h3, of "listing tryon_world"] obtain d w' where
    a: "sync_session (listing tryon_world) ''s1'' tryon_world = (Inr Created, w')"
    and b: "docs w' ''s1'' = Some d"
    and l: "list_all2 (\<lambda>f e. imageUrl e = public_url f
                \<and> ((\<exists>k ds. first_occurrence (split_pop f) k ds \<and> sku e = k
                              \<and> timestamp e = to_number (decimal_value ds))
                   \<or> ((\<forall>i k ds. \<not> occurs_at (split_pop f) i k ds) \<and> sku e = ''unknown''
                       \<and> (\<exists>j. ticks tryon_world \<le> j \<and> j < ticks w'
                               \<and> timestamp e = Num (clock tryon_world j))))
                \<and> (\<forall>k ds. whole_name (split_pop f) k ds \<longrightarrow>
                       sku e = k \<and> timestamp e = to_number (decimal_value ds)))
               (filter (tryon_file ''s1'') (listing tryon_world)) (foundationTryons d)"
    by blast
  from l[unfolded ff] obtain e1 e2 where
    es: "foundationTryons d = [e1, e2]"
    and q1: "\<forall>k ds. whole_name (split_pop ?f1) k ds \<longrightarrow>
                sku e1 = k \<and> timestamp e1 = to_number (decimal_value ds)"
    and q3: "(\<exists>k ds. first_occurrence (split_pop ?f3) k ds \<and> sku e2 = k
                              \<and> timestamp e2 = to_number (decimal_value ds))
                   \<or> ((\<forall>i k ds. \<not> occurs_at (split_pop ?f3) i k ds) \<and> sku e2 = ''unknown''
                       \<and> (\<exists>j. ticks tryon_world \<le> j \<and> j < ticks w'
                               \<and> timestamp e2 = Num (clock tryon_world j)))"
    by (auto simp: list_all2_Cons1)
  from q1 w1 have s1: "sku e1 = ''SKU42''" "timestamp e1 = Num 1690000000000"
    unfolding v[symmetric] by blast+
  from q3 n3 have s3: "sku e2 = ''unknown''" by blast
  have "sync_session (listing tryon_world) ''s1'' tryon_world = (Inr Created, w')
          \<and> docs w' ''s1'' = Some d
          \<and> map sku (foundationTryons d) = [''SKU42'', ''unknown'']
          \<and> timestamp (hd (foundationTryons d)) = Num 1690000000000"
    using a b es s1 s3 by simp
  then show ?thesis by (intro exI)
qed

text \<open>The entries of that session, computed: the third reading of the clock is the
  timestamp of the entry whose file name does not match.\<close>

lemma foundation_entries_computed:
  "map_option foundationTryons (docs (snd (POST tryon_world (Body None))) ''s1'') =
     Some [\<lparr>sku = ''SKU42'', timestamp = Num 1690000000000,
             imageUrl = ''https://storage.googleapis.com/melaleuca-mirror.firebasestorage.app/sessions/s1/foundation-SKU42-1690000000000.jpg''\<rparr>,
           \<lparr>sku = ''unknown'', timestamp = Num 1700000000002,
             imageUrl = ''https://storage.googleapis.com/melaleuca-mirror.firebasestorage.app/sessions/s1/foundation-badname.jpg''\<rparr>]
   \<and> fst (POST tryon_world (Body None)) =
       Response 200 (SweepBody
         \<lparr>totalFolders = 1, alreadySynced = 0, newlyCreated = 1, failed = 0,
          details = [\<lparr>sessionId = ''s1'', status = ''created'', error = None\<rparr>]\<rparr>)"
  by (simp add: tryon_world_def eval_defs number_defs)

text \<open>
  Claim C5 as stated fails. The object \<^verbatim>\<open>sessions/s1/xfoundation-A-12.jpgz.jpg\<close> lies
  under the session's path, contains \<^verbatim>\<open>foundation-\<close> and ends in \<^verbatim>\<open>.jpg\<close>; its file name
  is not of the form \<^verbatim>\<open>foundation-<sku>-<digits>.jpg\<close>, so the claim gives the entry the
  sku \<^verbatim>\<open>'unknown'\<close> and the time of the sync; the sweep stores the sku \<^verbatim>\<open>A\<close> and the
  timestamp 12, which the expression finds inside the name.
\<close>

theorem unanchored_match_counterexample:
  "tryon_file ''s1'' ''sessions/s1/xfoundation-A-12.jpgz.jpg''
   \<and> split_pop ''sessions/s1/xfoundation-A-12.jpgz.jpg'' = ''xfoundation-A-12.jpgz.jpg''
   \<and> (\<forall>k ds. \<not> whole_name ''xfoundation-A-12.jpgz.jpg'' k ds)
   \<and> map_option foundationTryons (docs (snd (POST anchorless_world (Body None))) ''s1'') =
       Some [\<lparr>sku = ''A'', timestamp = Num 12,
               imageUrl = ''https://storage.googleapis.com/melaleuca-mirror.firebasestorage.app/sessions/s1/xfoundation-A-12.jpgz.jpg''\<rparr>]"
proof -
  have a: "tryon_file ''s1'' ''sessions/s1/xfoundation-A-12.jpgz.jpg''"
    by (simp add: tryon_file_iff startsWith_def str_includes_def endsWith_def
          sublist_Cons_right suffix_to_prefix)
  have b: "split_pop ''sessions/s1/xfoundation-A-12.jpgz.jpg'' = ''xfoundation-A-12.jpgz.jpg''"
    by (simp add: split_pop_def)
  have c: "\<forall>k ds. \<not> whole_name ''xfoundation-A-12.jpgz.jpg'' k ds"
    by (simp add: whole_name_def)
  have d: "map_option foundationTryons (docs (snd (POST anchorless_world (Body None))) ''s1'') =
       Some [\<lparr>sku = ''A'', timestamp = Num 12,
               imageUrl = ''https://storage.googleapis.com/melaleuca-mirror.firebasestorage.app/sessions/s1/xfoundation-A-12.jpgz.jpg''\<rparr>]"
    by (simp add: anchorless_world_def eval_defs number_defs)
  from a b c d show ?thesis by (intro conjI)
qed

end
